theory Spec2Isabelle
  imports Main
begin

section \<open>String helpers of the Go standard library used by the code generator\<close>

text \<open>
  Go strings are byte strings; \<open>string\<close> (a \<open>char list\<close>) models them byte for byte.
  Only the calls that occur in \<open>codegen/api.go\<close> and \<open>codegen/handle_func_gen.go\<close>
  are modelled.
\<close>

definition HasPrefix :: "string \<Rightarrow> string \<Rightarrow> bool" where
  "HasPrefix s p = (take (length p) s = p)"

definition HasSuffix :: "string \<Rightarrow> string \<Rightarrow> bool" where
  "HasSuffix s x = (length x \<le> length s \<and> drop (length s - length x) s = x)"

definition TrimPrefix :: "string \<Rightarrow> string \<Rightarrow> string" where
  "TrimPrefix s p = (if HasPrefix s p then drop (length p) s else s)"

definition TrimSuffix :: "string \<Rightarrow> string \<Rightarrow> string" where
  "TrimSuffix s x = (if HasSuffix s x then take (length s - length x) s else s)"

text \<open>
  \<open>strings.Split(s, sep)\<close> for a separator of one byte (the code splits on \<open>"/"\<close> and
  on \<open>"."\<close> only): one more piece than there are separators, so the empty string gives
  one empty piece.
\<close>

fun Split :: "string \<Rightarrow> char \<Rightarrow> string list" where
  "Split [] sep = [[]]"
| "Split (c # cs) sep =
     (if c = sep then [] # Split cs sep
      else (case Split cs sep of
              [] \<Rightarrow> [[c]]
            | w # ws \<Rightarrow> (c # w) # ws))"

fun Join :: "string list \<Rightarrow> string \<Rightarrow> string" where
  "Join [] sep = []"
| "Join [s] sep = s"
| "Join (s # t # ss) sep = s @ sep @ Join (t # ss) sep"

text \<open>
  \<open>filepath.Split\<close> on a slash-separated path: the directory keeps its final slash,
  the file is what follows the last slash.
\<close>

fun lastSlash :: "string \<Rightarrow> nat" where
  "lastSlash [] = 0"
| "lastSlash (c # cs) =
     (if CHR ''/'' \<in> set (c # cs)
      then (if CHR ''/'' \<in> set cs then Suc (lastSlash cs) else 1)
      else 0)"

definition filepath_Split :: "string \<Rightarrow> string \<times> string" where
  "filepath_Split p = (take (lastSlash p) p, drop (lastSlash p) p)"

text \<open>\<open>strconv.Itoa\<close> on the non-negative values the name counter reaches.\<close>

definition digit :: "nat \<Rightarrow> char" where
  "digit d = char_of (48 + d)"

fun Itoa :: "nat \<Rightarrow> string" where
  "Itoa n = (if n < 10 then [digit n] else Itoa (n div 10) @ [digit (n mod 10)])"

declare Itoa.simps [simp del]

section \<open>Include/exclude resolution of middleware tokens\<close>

text \<open>
  \<open>resolveIncludeExclude\<close> (handle\_func\_gen.go): its three local closures, the loop over
  the slice, and \<open>lo.Uniq\<close> of the library \<open>samber/lo\<close>, which walks the slice once
  with a set of the values seen and keeps the first occurrence of each.
\<close>

definition isSub :: "string \<Rightarrow> bool" where
  "isSub s = HasSuffix s ''-''"

definition isX :: "string \<Rightarrow> string \<Rightarrow> bool" where
  "isX s x = (s @ ''-'' = x)"

fun buildSubFrom :: "int \<Rightarrow> string \<Rightarrow> string list \<Rightarrow> int" where
  "buildSubFrom i s [] = i"
| "buildSubFrom i s (t # ss) =
     buildSubFrom (if t = s then i + 1 else if isX s t then i + (-1) else i) s ss"

definition buildSub :: "string \<Rightarrow> string list \<Rightarrow> int" where
  "buildSub s ss = buildSubFrom 1 s ss"

fun uniqLoop :: "'a set \<Rightarrow> 'a list \<Rightarrow> 'a list" where
  "uniqLoop seen [] = []"
| "uniqLoop seen (x # xs) =
     (if x \<in> seen then uniqLoop seen xs else x # uniqLoop (insert x seen) xs)"

definition Uniq :: "'a list \<Rightarrow> 'a list" where
  "Uniq xs = uniqLoop {} xs"

text \<open>
  The loop \<open>for i, s := range arrs\<close>: at the head \<open>s\<close> of the remaining slice,
  \<open>arrs[i+1:]\<close> is its tail.
\<close>

fun includeLoop :: "string list \<Rightarrow> string list" where
  "includeLoop [] = []"
| "includeLoop (s # rest) =
     (if isSub s then includeLoop rest
      else if buildSub s rest > 0 then s # includeLoop rest
      else includeLoop rest)"

definition resolveIncludeExclude :: "string list \<Rightarrow> string list" where
  "resolveIncludeExclude arrs = Uniq (includeLoop arrs)"


text \<open>
  The claim's own reading of the rule, in the spec's words: the token at index \<open>i\<close> does
  not end in the reserved suffix, and one (for the token itself) plus its occurrences
  among the later tokens minus the occurrences of the token with the suffix appended
  is strictly positive.
\<close>

definition keptAt :: "string list \<Rightarrow> nat \<Rightarrow> bool" where
  "keptAt xs i =
     (\<not> HasSuffix (xs ! i) ''-'' \<and>
      1 + int (count_list (drop (Suc i) xs) (xs ! i))
        - int (count_list (drop (Suc i) xs) (xs ! i @ ''-'')) > 0)"

section \<open>Data model (codegen/api.go)\<close>

text \<open>
  The structs of the generator as records. Field names carry the struct's initials,
  since a record field is a constant of the theory. \<open>token.Position\<close> is the
  standard library's. The embedded \<open>PackageItem\<close> of \<open>Type\<close> is the field
  \<open>ty_PackageItem\<close>, so Go's promoted \<open>t.Path\<close> reads
  \<open>pkg_Path (ty_PackageItem t)\<close>. \<open>Arg.ObjectTypes\<close> (a \<open>types.Object\<close> of the
  type checker) is read by no function modelled here and is left out.
\<close>

record Position =
  pos_Filename :: string
  pos_Offset :: int
  pos_Line :: int
  pos_Column :: int

record PackageItem =
  pkg_Name :: string
  pkg_Path :: string
  pkg_Alias :: string

record Type =
  ty_PackageItem :: PackageItem
  ty_Name :: string
  ty_Kind :: string
  ty_Star :: bool
  ty_FullName :: string
  ty_PackageName :: string

record Mapping =
  m_Scope :: string
  m_HttpMethod :: string
  m_Label :: "string \<rightharpoonup> string"
  m_Middleware :: "string list"
  m_HttpCode :: int
  m_PathPrefix :: bool
  m_BindQuery :: "Type list"
  m_BindHeader :: "Type list"
  m_line :: int
  m_pos :: Position

record Arg =
  arg_Name :: string
  arg_Desc :: string
  arg_Star :: bool
  arg_Type :: Type
  arg_Location :: string
  arg_Package :: PackageItem
  arg_PathParamName :: string

text \<open>
  \<open>With\<close> and \<open>WithGlobal\<close> are pointers to a \<open>Mapping\<close> (\<open>nil\<close> is \<open>None\<close>);
  the record holds the value pointed to.
\<close>

record HandleFunc =
  hf_Doc :: string
  hf_Name :: string
  hf_RequestArgs :: "Arg list"
  hf_ResponseResult :: "Arg list"
  hf_ResponseError :: bool
  hf_With :: "Mapping option"
  hf_WithGlobal :: "Mapping option"
  hf_Imports :: "PackageItem list"
  hf_Patten :: string
  hf_PackageName :: string
  hf_RouteInfoPackage :: PackageItem
  hf_AliceChainPackage :: PackageItem
  hf_GoHttpPackage :: PackageItem
  hf_ParentMiddlewares :: "string list"
  hf_Middlewares :: "string list"
  hf_Pos :: Position
  hf_GeneratedPackageInfo :: PackageItem
  hf_mappingMerged :: bool

text \<open>The zero values Go gives to fields a composite literal leaves out.\<close>

definition zeroPosition :: Position where
  "zeroPosition = \<lparr>pos_Filename = [], pos_Offset = 0, pos_Line = 0, pos_Column = 0\<rparr>"

definition zeroPackageItem :: PackageItem where
  "zeroPackageItem = \<lparr>pkg_Name = [], pkg_Path = [], pkg_Alias = []\<rparr>"

definition zeroType :: Type where
  "zeroType = \<lparr>ty_PackageItem = zeroPackageItem, ty_Name = [], ty_Kind = [],
     ty_Star = False, ty_FullName = [], ty_PackageName = []\<rparr>"

definition zeroMapping :: Mapping where
  "zeroMapping = \<lparr>m_Scope = [], m_HttpMethod = [], m_Label = Map.empty,
     m_Middleware = [], m_HttpCode = 0, m_PathPrefix = False, m_BindQuery = [],
     m_BindHeader = [], m_line = 0, m_pos = zeroPosition\<rparr>"

definition zeroArg :: Arg where
  "zeroArg = \<lparr>arg_Name = [], arg_Desc = [], arg_Star = False, arg_Type = zeroType,
     arg_Location = [], arg_Package = zeroPackageItem, arg_PathParamName = []\<rparr>"

definition zeroHandleFunc :: HandleFunc where
  "zeroHandleFunc = \<lparr>hf_Doc = [], hf_Name = [], hf_RequestArgs = [],
     hf_ResponseResult = [], hf_ResponseError = False, hf_With = None,
     hf_WithGlobal = None, hf_Imports = [], hf_Patten = [], hf_PackageName = [],
     hf_RouteInfoPackage = zeroPackageItem, hf_AliceChainPackage = zeroPackageItem,
     hf_GoHttpPackage = zeroPackageItem, hf_ParentMiddlewares = [], hf_Middlewares = [],
     hf_Pos = zeroPosition, hf_GeneratedPackageInfo = zeroPackageItem,
     hf_mappingMerged = False\<rparr>"

definition EqualTo :: "Type \<Rightarrow> Type \<Rightarrow> bool" where
  "EqualTo t t2 =
     (ty_Name t = ty_Name t2 \<and> pkg_Path (ty_PackageItem t) = pkg_Path (ty_PackageItem t2))"

definition IsPrimitive :: "Type \<Rightarrow> bool" where
  "IsPrimitive t =
     (ty_Name t \<in> set [''string'', ''int'', ''int8'', ''int16'', ''int32'', ''int64'',
        ''uint'', ''uint8'', ''uint16'', ''uint32'', ''uint64'', ''float32'', ''float64'',
        ''bool'', ''byte'', ''rune'', ''uintptr'', ''error''])"

section \<open>Merging a handler's mapping (HandleFunc.mergeMapping)\<close>

text \<open>
  The method mutates its receiver; the model returns the handler after the call. The
  two loops that copy the labels into a fresh map, the file's first and the handler's
  second, give \<open>m_Label g ++ m_Label w\<close>.
\<close>

definition mergeMapping :: "HandleFunc \<Rightarrow> HandleFunc" where
  "mergeMapping h =
     (if hf_mappingMerged h then h
      else
        let w = (case hf_With h of
                   None \<Rightarrow> zeroMapping\<lparr>m_HttpMethod := ''GET''\<rparr>
                 | Some m \<Rightarrow> m);
            h1 = h\<lparr>hf_With := Some w, hf_mappingMerged := True\<rparr>
        in (case hf_WithGlobal h1 of
              None \<Rightarrow> h1
            | Some g \<Rightarrow>
                let w1 = w\<lparr>m_Middleware := m_Middleware g @ m_Middleware w\<rparr>;
                    w2 = w1\<lparr>m_BindQuery := m_BindQuery g @ m_BindQuery w1\<rparr>;
                    w3 = w2\<lparr>m_BindHeader := m_BindHeader g @ m_BindHeader w2\<rparr>;
                    w4 = w3\<lparr>m_Label := m_Label g ++ m_Label w3\<rparr>
                in h1\<lparr>hf_With := Some w4,
                      hf_Middlewares :=
                        resolveIncludeExclude (hf_ParentMiddlewares h1 @ m_Middleware w4)\<rparr>))"


section \<open>Synthetic names (getAutoIncrementName, generateVarName)\<close>

text \<open>
  Panics and error returns of the modelled functions, as values.
\<close>

datatype error =
    MultipleGlobalMapping string int
  | MultipleAnnotations string int
  | PanicSliceBounds
  | PanicNilPointer

text \<open>
  \<open>getAutoIncrementName\<close> is a package-level variable holding a closure over the map
  \<open>m\<close>, which is allocated once, when the package is initialised, and lives as long
  as the process. The model passes the map in and returns it updated. A key that is
  absent reads as zero, as in Go.
\<close>

type_synonym nameCounter = "string \<rightharpoonup> int"

definition counterAt :: "nameCounter \<Rightarrow> string \<Rightarrow> int" where
  "counterAt m k = (case m k of None \<Rightarrow> 0 | Some v \<Rightarrow> v)"

definition strconv_Itoa :: "int \<Rightarrow> string" where
  "strconv_Itoa i = (if i < 0 then ''-'' @ Itoa (nat (- i)) else Itoa (nat i))"

definition getAutoIncrementName :: "nameCounter \<Rightarrow> string \<Rightarrow> string \<Rightarrow> string \<times> nameCounter" where
  "getAutoIncrementName m filename prefix =
     (let countKey = filename @ ''.'' @ prefix;
          m' = m(countKey \<mapsto> counterAt m countKey + 1)
      in if counterAt m' countKey = 1 then (prefix, m')
         else (prefix @ strconv_Itoa (counterAt m' countKey - 1), m'))"

text \<open>
  \<open>strings.ToLower\<close> on the one-byte string \<open>tpe[:1]\<close>: an ASCII capital is lowered, any
  other ASCII byte is kept, and a byte from 0x80 on (not valid UTF-8 on its own) comes
  back as the three bytes of the replacement character U+FFFD.
\<close>

definition ToLower1 :: "char \<Rightarrow> string" where
  "ToLower1 c =
     (let n = (of_char c :: nat)
      in if 65 \<le> n \<and> n \<le> 90 then [char_of (n + 32)]
         else if 128 \<le> n then [char_of (239 :: nat), char_of (191 :: nat), char_of (189 :: nat)]
         else [c])"

definition generateVarName ::
  "nameCounter \<Rightarrow> string \<Rightarrow> string \<Rightarrow> string \<Rightarrow> error + (string \<times> nameCounter)" where
  "generateVarName m filename tpe varName =
     (if tpe = ''error'' then Inr (''err'', m)
      else if varName \<noteq> [] then Inr (getAutoIncrementName m filename varName)
      else if tpe = [] then Inr (getAutoIncrementName m filename ''_var'')
      else (case last (Split tpe CHR ''.'') of
              [] \<Rightarrow> Inl PanicSliceBounds
            | c # cs \<Rightarrow> Inr (getAutoIncrementName m filename (ToLower1 c @ cs))))"

fun autoNameLoop ::
  "nameCounter \<Rightarrow> string \<Rightarrow> Arg list \<Rightarrow> error + (Arg list \<times> nameCounter)" where
  "autoNameLoop m hname [] = Inr ([], m)"
| "autoNameLoop m hname (a # as) =
     (if arg_Name a \<noteq> [] then
        (case autoNameLoop m hname as of
           Inl e \<Rightarrow> Inl e
         | Inr (as', m') \<Rightarrow> Inr (a # as', m'))
      else
        (case generateVarName m hname (ty_Name (arg_Type a)) (arg_Name a) of
           Inl e \<Rightarrow> Inl e
         | Inr (n, m1) \<Rightarrow>
             (case autoNameLoop m1 hname as of
                Inl e \<Rightarrow> Inl e
              | Inr (as', m') \<Rightarrow> Inr (a\<lparr>arg_Name := n\<rparr> # as', m'))))"

definition autoNameHandleResponse ::
  "nameCounter \<Rightarrow> HandleFunc \<Rightarrow> error + (HandleFunc \<times> nameCounter)" where
  "autoNameHandleResponse m h =
     (case autoNameLoop m (hf_Name h) (hf_ResponseResult h) of
        Inl e \<Rightarrow> Inl e
      | Inr (rs, m') \<Rightarrow> Inr (h\<lparr>hf_ResponseResult := rs\<rparr>, m'))"

section \<open>Binding locations of the parameters (generateHandler)\<close>

text \<open>
  The three package items the generator computes by reflection when it starts.
\<close>

definition routeInfoPackage :: PackageItem where
  "routeInfoPackage =
     \<lparr>pkg_Name = ''http'', pkg_Path = ''github.com/headless-go/nextgo/http'', pkg_Alias = []\<rparr>"

definition goHttpPackage :: PackageItem where
  "goHttpPackage = \<lparr>pkg_Name = ''http'', pkg_Path = ''net/http'', pkg_Alias = []\<rparr>"

definition aliceChainPackage :: PackageItem where
  "aliceChainPackage =
     \<lparr>pkg_Name = ''alice'', pkg_Path = ''github.com/justinas/alice'', pkg_Alias = []\<rparr>"

fun aliasLoop :: "PackageItem list \<Rightarrow> PackageItem \<Rightarrow> PackageItem" where
  "aliasLoop [] item = item"
| "aliasLoop (a # as) item =
     (if pkg_Path a = pkg_Path item
      then (if pkg_Alias a \<noteq> [] then item\<lparr>pkg_Alias := pkg_Alias a\<rparr> else item)
      else aliasLoop as item)"

definition aliasImportsPackage :: "PackageItem list \<Rightarrow> PackageItem \<Rightarrow> PackageItem" where
  "aliasImportsPackage imports item = aliasLoop imports (item\<lparr>pkg_Alias := pkg_Name item\<rparr>)"

text \<open>\<open>pkgsCache\<close>: the imports by path, a later import replacing an earlier one.\<close>

fun pkgsCacheOf :: "PackageItem list \<Rightarrow> (string \<rightharpoonup> PackageItem) \<Rightarrow> (string \<rightharpoonup> PackageItem)" where
  "pkgsCacheOf [] c = c"
| "pkgsCacheOf (v # vs) c = pkgsCacheOf vs (c(pkg_Path v \<mapsto> v))"

definition markerTypes :: "string list" where
  "markerTypes = [''context.Context'', ''net/http.Request'', ''net/http.ResponseWriter'']"

text \<open>
  One round of the loop \<open>L1\<close> over \<open>handle.RequestArgs\<close>. The tests read the copy
  \<open>a\<close> the \<open>range\<close> clause took, the writes go to \<open>handle.RequestArgs[i]\<close>; the
  alias step changes neither the name, the path nor the full name of the type, which
  are all the tests read. \<open>w\<close> is \<open>handle.With\<close>; reading a field through a nil
  pointer panics.
\<close>

definition bindArg ::
  "nameCounter \<Rightarrow> string \<Rightarrow> string \<Rightarrow> Mapping option \<Rightarrow> (string \<rightharpoonup> PackageItem) \<Rightarrow> Arg
     \<Rightarrow> error + (Arg \<times> nameCounter)" where
  "bindArg m hname pkgName w pkgsCache a =
     (let a1 = (case pkgsCache (pkg_Path (arg_Package a)) of
                  None \<Rightarrow> a
                | Some p \<Rightarrow>
                    if pkg_Alias p \<noteq> []
                    then a\<lparr>arg_Package := p,
                           arg_Type := (arg_Type a)\<lparr>ty_PackageName :=
                             pkg_Alias p @ ''.'' @ ty_Name (arg_Type a)\<rparr>\<rparr>
                    else a)
      in if ty_FullName (arg_Type a) \<in> set markerTypes then Inr (a1, m)
         else (case w of
                 None \<Rightarrow> Inl PanicNilPointer
               | Some wm \<Rightarrow>
                   if list_ex (\<lambda>item. EqualTo item (arg_Type a)) (m_BindQuery wm)
                   then Inr (a1\<lparr>arg_Location := ''query''\<rparr>, m)
                   else if list_ex (\<lambda>item. EqualTo item (arg_Type a)) (m_BindHeader wm)
                   then Inr (a1\<lparr>arg_Location := ''header''\<rparr>, m)
                   else if IsPrimitive (arg_Type a)
                   then (if pkgName = arg_Name a1
                         then (case generateVarName m hname [] (arg_Name a1 @ ''Param'') of
                                 Inl e \<Rightarrow> Inl e
                               | Inr (n, m') \<Rightarrow>
                                   Inr (a1\<lparr>arg_Location := ''path'',
                                           arg_PathParamName := arg_Name a1,
                                           arg_Name := n\<rparr>, m'))
                         else Inr (a1\<lparr>arg_Location := ''path''\<rparr>, m))
                   else Inr (a1\<lparr>arg_Location := ''body''\<rparr>, m)))"

fun bindArgs ::
  "nameCounter \<Rightarrow> string \<Rightarrow> string \<Rightarrow> Mapping option \<Rightarrow> (string \<rightharpoonup> PackageItem) \<Rightarrow> Arg list
     \<Rightarrow> error + (Arg list \<times> nameCounter)" where
  "bindArgs m hname pkgName w pkgsCache [] = Inr ([], m)"
| "bindArgs m hname pkgName w pkgsCache (a # as) =
     (case bindArg m hname pkgName w pkgsCache a of
        Inl e \<Rightarrow> Inl e
      | Inr (a', m1) \<Rightarrow>
          (case bindArgs m1 hname pkgName w pkgsCache as of
             Inl e \<Rightarrow> Inl e
           | Inr (as', m') \<Rightarrow> Inr (a' # as', m')))"

text \<open>
  \<open>generateHandler\<close> up to the execution of the template: the handler the template
  is run on, and the name counter after the call. \<open>imports\<close> is \<open>pkgs.Imports\<close>.
\<close>

definition generateHandler ::
  "nameCounter \<Rightarrow> HandleFunc \<Rightarrow> PackageItem list \<Rightarrow> error + (HandleFunc \<times> nameCounter)" where
  "generateHandler m handle imports =
     (case autoNameHandleResponse m (mergeMapping handle) of
        Inl e \<Rightarrow> Inl e
      | Inr (h1, m1) \<Rightarrow>
          (case bindArgs m1 (hf_Name h1) (hf_PackageName h1) (hf_With h1)
                  (pkgsCacheOf imports Map.empty) (hf_RequestArgs h1) of
             Inl e \<Rightarrow> Inl e
           | Inr (args, m2) \<Rightarrow>
               Inr (h1\<lparr>hf_RequestArgs := args,
                       hf_RouteInfoPackage := aliasImportsPackage imports routeInfoPackage,
                       hf_GoHttpPackage := aliasImportsPackage imports goHttpPackage,
                       hf_AliceChainPackage := aliasImportsPackage imports aliceChainPackage\<rparr>,
                    m2)))"

section \<open>Binding annotations to handlers (bindHandleFuncMapping)\<close>

text \<open>
  \<open>API\<close> and \<open>RestfulApi\<close>; the schemas of the documentation are carried along
  unread, so their type is left open.
\<close>

typedecl Schema

record API =
  api_Handlers :: "HandleFunc list"
  api_Annotations :: "Mapping list"
  api_Schemas :: "string \<rightharpoonup> Schema"

record RestfulApi =
  ra_Apis :: "string \<rightharpoonup> (string \<rightharpoonup> HandleFunc)"
  ra_Schemas :: "string \<rightharpoonup> Schema"

text \<open>
  A \<open>node\<close> holds a pointer to a handler or to an annotation. The handler is written
  through the pointer, so the node keeps its index in \<open>handlers\<close>; the annotation
  is only read, so the node keeps its value.
\<close>

datatype node = NHandleFunc nat | NMapping Mapping

definition node_Pos :: "HandleFunc list \<Rightarrow> node \<Rightarrow> Position" where
  "node_Pos hs n = (case n of NHandleFunc k \<Rightarrow> hf_Pos (hs ! k) | NMapping m \<Rightarrow> m_pos m)"

text \<open>
  \<open>slices.SortFunc\<close> of the standard library, as the insertion sort it runs on a slice
  of at most twelve elements: each element moves left while the comparison with its
  left neighbour is negative. (On a longer slice the library runs a quicksort; the
  result is the same when the comparison is a strict total order on the elements.)
  \<open>insertLeft\<close> works on the sorted prefix, read from its right end.
\<close>

fun insertLeft :: "('a \<Rightarrow> 'a \<Rightarrow> int) \<Rightarrow> 'a \<Rightarrow> 'a list \<Rightarrow> 'a list" where
  "insertLeft cmp x [] = [x]"
| "insertLeft cmp x (y # ys) =
     (if cmp x y < 0 then y # insertLeft cmp x ys else x # y # ys)"

definition SortFunc :: "('a \<Rightarrow> 'a \<Rightarrow> int) \<Rightarrow> 'a list \<Rightarrow> 'a list" where
  "SortFunc cmp xs = rev (foldl (\<lambda>acc x. insertLeft cmp x acc) [] xs)"

text \<open>Go compares strings byte by byte.\<close>

fun strLess :: "string \<Rightarrow> string \<Rightarrow> bool" where
  "strLess [] [] = False"
| "strLess [] (y # ys) = True"
| "strLess (x # xs) [] = False"
| "strLess (x # xs) (y # ys) =
     (if x = y then strLess xs ys else (of_char x :: nat) < of_char y)"

definition BindMiddlewareFile :: "Mapping list \<Rightarrow> Mapping list" where
  "BindMiddlewareFile annotation =
     SortFunc (\<lambda>a b. if strLess (pos_Filename (m_pos a)) (pos_Filename (m_pos b)) then - 1 else 1)
       (filter (\<lambda>a. snd (filepath_Split (pos_Filename (m_pos a))) = ''middleware.go'') annotation)"

text \<open>
  The first two loops fill \<open>nodeMap\<close> (file name to nodes; an absent key reads as the
  empty slice) and \<open>globalMapping\<close>; the second returns at the second file-scoped
  annotation of a file.
\<close>

fun handlerNodes :: "nat \<Rightarrow> HandleFunc list \<Rightarrow> (string \<Rightarrow> node list) \<Rightarrow> (string \<Rightarrow> node list)" where
  "handlerNodes k [] nodeMap = nodeMap"
| "handlerNodes k (v # vs) nodeMap =
     handlerNodes (Suc k) vs
       (nodeMap(pos_Filename (hf_Pos v) := nodeMap (pos_Filename (hf_Pos v)) @ [NHandleFunc k]))"

definition lenAt :: "(string \<rightharpoonup> Mapping list) \<Rightarrow> string \<Rightarrow> nat" where
  "lenAt g f = (case g f of None \<Rightarrow> 0 | Some ms \<Rightarrow> length ms)"

fun annotationNodes ::
  "Mapping list \<Rightarrow> (string \<Rightarrow> node list) \<Rightarrow> (string \<rightharpoonup> Mapping list)
     \<Rightarrow> error + ((string \<Rightarrow> node list) \<times> (string \<rightharpoonup> Mapping list))" where
  "annotationNodes [] nodeMap globalMapping = Inr (nodeMap, globalMapping)"
| "annotationNodes (v # vs) nodeMap globalMapping =
     (let f = pos_Filename (m_pos v) in
      if m_Scope v = ''Mapping''
      then annotationNodes vs (nodeMap(f := nodeMap f @ [NMapping v])) globalMapping
      else if lenAt globalMapping f > 0
      then Inl (MultipleGlobalMapping f (pos_Line (m_pos v)))
      else annotationNodes vs nodeMap
             (globalMapping(f \<mapsto> (case globalMapping f of None \<Rightarrow> [] | Some ms \<Rightarrow> ms) @ [v])))"

text \<open>
  The loop over the sorted nodes of one file, \<open>i\<close> from \<open>0\<close> to \<open>len(fileNodes)-2\<close>:
  the list is the slice from index \<open>i\<close> on.
\<close>

fun bindFileNodes :: "node list \<Rightarrow> HandleFunc list \<Rightarrow> error + HandleFunc list" where
  "bindFileNodes (NMapping m # NMapping n # rest) hs =
     Inl (MultipleAnnotations (pos_Filename (m_pos n)) (pos_Line (m_pos n)))"
| "bindFileNodes (NMapping m # NHandleFunc k # rest) hs =
     bindFileNodes (NHandleFunc k # rest) (hs[k := (hs ! k)\<lparr>hf_With := Some m\<rparr>])"
| "bindFileNodes (NHandleFunc j # n # rest) hs = bindFileNodes (n # rest) hs"
| "bindFileNodes [n] hs = Inr hs"
| "bindFileNodes [] hs = Inr hs"

definition sortFileNodes :: "HandleFunc list \<Rightarrow> node list \<Rightarrow> node list" where
  "sortFileNodes hs fileNodes =
     SortFunc (\<lambda>a b. pos_Line (node_Pos hs a) - pos_Line (node_Pos hs b)) fileNodes"

text \<open>
  \<open>for _, fileNodes := range nodeMap\<close>: Go leaves the order in which a map is iterated
  open, so the order \<open>ks\<close> of the file names is a parameter of the model; a run of
  the program corresponds to a \<open>ks\<close> that lists every file with a node once. The
  files do not interact but for the error that is returned when several files have one.
\<close>

fun bindFiles ::
  "string list \<Rightarrow> (string \<Rightarrow> node list) \<Rightarrow> HandleFunc list \<Rightarrow> error + HandleFunc list" where
  "bindFiles [] nodeMap hs = Inr hs"
| "bindFiles (f # fs) nodeMap hs =
     (case bindFileNodes (sortFileNodes hs (nodeMap f)) hs of
        Inl e \<Rightarrow> Inl e
      | Inr hs' \<Rightarrow> bindFiles fs nodeMap hs')"

text \<open>The last loop: inherited middleware and the file's own mapping.\<close>

fun parentMiddlewares :: "string \<Rightarrow> Mapping list \<Rightarrow> string list \<Rightarrow> string list" where
  "parentMiddlewares filename [] acc = acc"
| "parentMiddlewares filename (m # ms) acc =
     parentMiddlewares filename ms
       (if HasPrefix filename (fst (filepath_Split (pos_Filename (m_pos m))))
        then acc @ m_Middleware m else acc)"

definition bindGlobal ::
  "Mapping list \<Rightarrow> (string \<rightharpoonup> Mapping list) \<Rightarrow> HandleFunc \<Rightarrow> HandleFunc" where
  "bindGlobal middlewareFile globalMapping v =
     (let v1 = v\<lparr>hf_ParentMiddlewares :=
                  parentMiddlewares (pos_Filename (hf_Pos v)) middlewareFile
                    (hf_ParentMiddlewares v)\<rparr>
      in (case globalMapping (pos_Filename (hf_Pos v)) of
            None \<Rightarrow> v1
          | Some ms \<Rightarrow> v1\<lparr>hf_WithGlobal := Some (hd ms)\<rparr>))"

definition bindHandleFuncMapping ::
  "string list \<Rightarrow> HandleFunc list \<Rightarrow> Mapping list \<Rightarrow> error + HandleFunc list" where
  "bindHandleFuncMapping ks handlers annotations =
     (case annotationNodes annotations (handlerNodes 0 handlers (\<lambda>f. [])) Map.empty of
        Inl e \<Rightarrow> Inl e
      | Inr (nodeMap, globalMapping) \<Rightarrow>
          (case bindFiles ks nodeMap handlers of
             Inl e \<Rightarrow> Inl e
           | Inr hs \<Rightarrow>
               Inr (map (bindGlobal (BindMiddlewareFile annotations) globalMapping) hs)))"

section \<open>Building the route table (BuildRestfulApi)\<close>

definition getApiPath :: "string \<Rightarrow> string \<Rightarrow> string" where
  "getApiPath prefix str = TrimSuffix (TrimPrefix str prefix) ''.go''"

text \<open>
  The loop \<open>L1\<close>: a segment equal to the name of a request argument, the first in
  declaration order, becomes that name in braces.
\<close>

fun placeholder :: "Arg list \<Rightarrow> string \<Rightarrow> string" where
  "placeholder [] s = s"
| "placeholder (a # as) s = (if arg_Name a = s then ''{'' @ arg_Name a @ ''}'' else placeholder as s)"

definition routePath :: "string \<Rightarrow> HandleFunc \<Rightarrow> string" where
  "routePath prefix h =
     Join (map (placeholder (hf_RequestArgs h))
             (Split (getApiPath prefix (pos_Filename (hf_Pos h))) CHR ''/'')) ''/''"

definition routeMethod :: "Mapping \<Rightarrow> string" where
  "routeMethod w = (if m_HttpMethod w = [] then ''GET'' else m_HttpMethod w)"

definition addRoute ::
  "string \<Rightarrow> (string \<rightharpoonup> (string \<rightharpoonup> HandleFunc)) \<Rightarrow> HandleFunc
     \<Rightarrow> (string \<rightharpoonup> (string \<rightharpoonup> HandleFunc))" where
  "addRoute prefix apis h =
     (let w = (case hf_With h of
                 None \<Rightarrow> zeroMapping\<lparr>m_HttpMethod := ''GET'', m_HttpCode := 200\<rparr>
               | Some m \<Rightarrow> m);
          h1 = h\<lparr>hf_With := Some w\<rparr>;
          method = routeMethod w;
          path = routePath prefix h1;
          inner = (case apis path of None \<Rightarrow> Map.empty | Some i \<Rightarrow> i)
      in apis(path \<mapsto> inner(method \<mapsto> h1\<lparr>hf_Patten := path\<rparr>)))"

definition BuildRestfulApi :: "string list \<Rightarrow> string \<Rightarrow> API \<Rightarrow> error + RestfulApi" where
  "BuildRestfulApi ks prefix api =
     (case bindHandleFuncMapping ks (api_Handlers api) (api_Annotations api) of
        Inl e \<Rightarrow> Inl e
      | Inr handlers \<Rightarrow>
          Inr \<lparr>ra_Apis = foldl (addRoute prefix) Map.empty handlers,
               ra_Schemas = api_Schemas api\<rparr>)"

text \<open>
  The status the documentation generator reports for a route (\<open>GenerateSwag\<close>): the
  mapping's code, and 200 where that is zero.
\<close>

definition swagStatusCode :: "Mapping \<Rightarrow> int" where
  "swagStatusCode w = (if m_HttpCode w = 0 then 200 else m_HttpCode w)"

section \<open>Notions the claims are stated with\<close>

text \<open>
  An annotation is file-scoped when its scope is not \<open>Mapping\<close> (the parser knows the
  two scopes \<open>Mapping\<close> and \<open>MappingFile\<close>; the binder takes the \<open>else\<close> branch for
  every scope but the first). \<open>secondGlobalAt vs k\<close>: the annotation at index \<open>k\<close> is
  file-scoped and an earlier annotation of the list is file-scoped in the same file.
\<close>

definition fileScoped :: "Mapping \<Rightarrow> bool" where
  "fileScoped v = (m_Scope v \<noteq> ''Mapping'')"

definition secondGlobalAt :: "Mapping list \<Rightarrow> nat \<Rightarrow> bool" where
  "secondGlobalAt vs k =
     (k < length vs \<and> fileScoped (vs ! k) \<and>
      list_ex (\<lambda>u. fileScoped u \<and> pos_Filename (m_pos u) = pos_Filename (m_pos (vs ! k)))
        (take k vs))"

text \<open>The entry of a route table, and of the result of a build, at a pattern and a method.\<close>

definition tableAt ::
  "(string \<rightharpoonup> (string \<rightharpoonup> HandleFunc)) \<Rightarrow> string \<Rightarrow> string \<Rightarrow> HandleFunc option" where
  "tableAt apis path method = (case apis path of None \<Rightarrow> None | Some inner \<Rightarrow> inner method)"

definition routeOf :: "error + RestfulApi \<Rightarrow> string \<Rightarrow> string \<Rightarrow> HandleFunc option" where
  "routeOf r path method = (case r of Inl e \<Rightarrow> None | Inr ra \<Rightarrow> tableAt (ra_Apis ra) path method)"

text \<open>Inputs for the concrete instances: an annotation and a handler at a source position.\<close>

definition annotationAt :: "string \<Rightarrow> string \<Rightarrow> int \<Rightarrow> Mapping" where
  "annotationAt scope file line =
     zeroMapping\<lparr>m_Scope := scope, m_line := line,
       m_pos := zeroPosition\<lparr>pos_Filename := file, pos_Line := line\<rparr>\<rparr>"

definition handlerAt :: "string \<Rightarrow> string \<Rightarrow> int \<Rightarrow> Arg list \<Rightarrow> HandleFunc" where
  "handlerAt name file line args =
     zeroHandleFunc\<lparr>hf_Name := name, hf_RequestArgs := args,
       hf_Pos := zeroPosition\<lparr>pos_Filename := file, pos_Line := line\<rparr>\<rparr>"

definition argOf :: "string \<Rightarrow> string \<Rightarrow> string \<Rightarrow> Arg" where
  "argOf name pkgPath typeName =
     zeroArg\<lparr>arg_Name := name,
       arg_Type := zeroType\<lparr>ty_PackageItem := zeroPackageItem\<lparr>pkg_Path := pkgPath\<rparr>,
         ty_Name := typeName,
         ty_FullName := (if pkgPath = [] then typeName else pkgPath @ ''.'' @ typeName)\<rparr>\<rparr>"

text \<open>
  What the loop of \<open>BuildRestfulApi\<close> stores for a handler: the mapping it resolves
  (the handler's own, or the default of a handler without one) and the handler with
  that mapping and its pattern.
\<close>

definition withOrDefault :: "HandleFunc \<Rightarrow> Mapping" where
  "withOrDefault h =
     (case hf_With h of
        None \<Rightarrow> zeroMapping\<lparr>m_HttpMethod := ''GET'', m_HttpCode := 200\<rparr>
      | Some m \<Rightarrow> m)"

definition routeEntry :: "string \<Rightarrow> HandleFunc \<Rightarrow> HandleFunc" where
  "routeEntry prefix h = h\<lparr>hf_With := Some (withOrDefault h), hf_Patten := routePath prefix h\<rparr>"

definition resolvesTo :: "string \<Rightarrow> string \<Rightarrow> string \<Rightarrow> HandleFunc \<Rightarrow> bool" where
  "resolvesTo prefix path method h =
     (routePath prefix h = path \<and> routeMethod (withOrDefault h) = method)"

text \<open>The method and the status code a stored route carries in its mapping.\<close>

definition methodAndCode :: "HandleFunc option \<Rightarrow> (string \<times> int) option" where
  "methodAndCode r =
     (case r of
        None \<Rightarrow> None
      | Some h \<Rightarrow> (case hf_With h of None \<Rightarrow> None | Some w \<Rightarrow> Some (m_HttpMethod w, m_HttpCode w)))"

definition labelled :: "Mapping \<Rightarrow> string \<Rightarrow> string \<Rightarrow> Mapping" where
  "labelled w k v = w\<lparr>m_Label := (m_Label w)(k \<mapsto> v)\<rparr>"

text \<open>
  The binding rule in the claim's words: a type matches an entry of a binding list when
  the package paths and the type names are equal; the location is \<open>query\<close> on a match
  in the query list, otherwise \<open>header\<close> on a match in the header list, otherwise
  \<open>path\<close> for a primitive type, otherwise \<open>body\<close>. The merged lists are the file's
  entries followed by the handler's own.
\<close>

definition matchesEntry :: "Type list \<Rightarrow> Type \<Rightarrow> bool" where
  "matchesEntry entries t =
     list_ex (\<lambda>e. pkg_Path (ty_PackageItem e) = pkg_Path (ty_PackageItem t) \<and>
                   ty_Name e = ty_Name t) entries"

definition claimedLocation :: "Type list \<Rightarrow> Type list \<Rightarrow> Type \<Rightarrow> string" where
  "claimedLocation qs hs t =
     (if matchesEntry qs t then ''query''
      else if matchesEntry hs t then ''header''
      else if IsPrimitive t then ''path''
      else ''body'')"

definition mergedBindQuery :: "HandleFunc \<Rightarrow> Type list" where
  "mergedBindQuery h =
     (case hf_WithGlobal h of None \<Rightarrow> [] | Some g \<Rightarrow> m_BindQuery g) @
     (case hf_With h of None \<Rightarrow> [] | Some w \<Rightarrow> m_BindQuery w)"

definition mergedBindHeader :: "HandleFunc \<Rightarrow> Type list" where
  "mergedBindHeader h =
     (case hf_WithGlobal h of None \<Rightarrow> [] | Some g \<Rightarrow> m_BindHeader g) @
     (case hf_With h of None \<Rightarrow> [] | Some w \<Rightarrow> m_BindHeader w)"

text \<open>The locations a run of \<open>generateHandler\<close> leaves on the request arguments.\<close>

definition locationsOf :: "error + (HandleFunc \<times> nameCounter) \<Rightarrow> string list option" where
  "locationsOf r =
     (case r of Inl e \<Rightarrow> None | Inr (h, m) \<Rightarrow> Some (map arg_Location (hf_RequestArgs h)))"

text \<open>
  A handler \<open>GetTodo(ctx context.Context, id string, n int64, req TodoRequest, q ListQuery)
  error\<close> of the package \<open>todos\<close>, whose own annotation binds \<open>Token\<close> and \<open>int64\<close> to
  the header and whose file annotation binds \<open>ListQuery\<close> to the query.
\<close>

definition typeOf :: "string \<Rightarrow> string \<Rightarrow> Type" where
  "typeOf pkgPath typeName = arg_Type (argOf [] pkgPath typeName)"

definition getTodoHandler :: HandleFunc where
  "getTodoHandler =
     (handlerAt ''GetTodo'' ''/api/v1/todos/id.go'' 20
        [argOf ''ctx'' ''context'' ''Context'',
         argOf ''id'' [] ''string'',
         argOf ''n'' [] ''int64'',
         argOf ''req'' ''example.com/api/v1/todos'' ''TodoRequest'',
         argOf ''q'' ''example.com/api/v1/todos'' ''ListQuery''])
      \<lparr>hf_PackageName := ''todos'',
       hf_ResponseResult := [argOf [] [] ''error''],
       hf_With := Some ((annotationAt ''Mapping'' ''/api/v1/todos/id.go'' 18)
          \<lparr>m_BindHeader := [typeOf ''example.com/api/v1/todos'' ''Token'', typeOf [] ''int64'']\<rparr>),
       hf_WithGlobal := Some ((annotationAt ''MappingFile'' ''/api/v1/todos/id.go'' 5)
          \<lparr>m_BindQuery := [typeOf ''example.com/api/v1/todos'' ''ListQuery'']\<rparr>)\<rparr>"

text \<open>
  A result for which \<open>generateVarName\<close> does not slice an empty string: it is named, or
  the last piece of its type name after a dot is not empty (the empty type name and
  \<open>error\<close> are handled before the slice).
\<close>

definition namable :: "Arg \<Rightarrow> bool" where
  "namable a =
     (arg_Name a \<noteq> [] \<or> ty_Name (arg_Type a) = ''error'' \<or> ty_Name (arg_Type a) = [] \<or>
      last (Split (ty_Name (arg_Type a)) CHR ''.'') \<noteq> [])"



text \<open>The segments of a handler's path, before the placeholders are put in.\<close>

definition pathSegments :: "string \<Rightarrow> HandleFunc \<Rightarrow> string list" where
  "pathSegments prefix h = Split (getApiPath prefix (pos_Filename (hf_Pos h))) CHR ''/''"





text \<open>
  A stored route after \<open>mergeMapping\<close>, which is what both generators read, and inputs with
  middleware: the handler \<open>GetTodo\<close> in \<open>todos/id.go\<close> with its own annotation
  \<open>Middleware("log-")\<close> under a \<open>todos/middleware.go\<close> that declares
  \<open>Middleware("auth", "log")\<close>, without and with a file annotation in \<open>id.go\<close>; and a
  handler in \<open>admin/users.go\<close> under both \<open>middleware.go\<close> and \<open>admin/middleware.go\<close>.
\<close>

definition mergedRoute :: "error + RestfulApi \<Rightarrow> string \<Rightarrow> string \<Rightarrow> HandleFunc option" where
  "mergedRoute r path method = map_option mergeMapping (routeOf r path method)"

definition withMiddleware :: "Mapping \<Rightarrow> string list \<Rightarrow> Mapping" where
  "withMiddleware w ms = w\<lparr>m_Middleware := ms\<rparr>"

definition todosApi :: API where
  "todosApi =
     \<lparr>api_Handlers = [handlerAt ''GetTodo'' ''/api/v1/todos/id.go'' 20 [argOf ''id'' [] ''string'']],
      api_Annotations =
        [withMiddleware (annotationAt ''Mapping'' ''/api/v1/todos/middleware.go'' 5) [''auth'', ''log''],
         withMiddleware (annotationAt ''Mapping'' ''/api/v1/todos/id.go'' 18) [''log-'']],
      api_Schemas = Map.empty\<rparr>"

definition todosApiFileMapping :: API where
  "todosApiFileMapping =
     todosApi\<lparr>api_Annotations :=
       api_Annotations todosApi @ [annotationAt ''MappingFile'' ''/api/v1/todos/id.go'' 3]\<rparr>"

definition adminApi :: API where
  "adminApi =
     \<lparr>api_Handlers = [handlerAt ''ListUsers'' ''/api/admin/users.go'' 20 []],
      api_Annotations =
        [withMiddleware (annotationAt ''Mapping'' ''/api/middleware.go'' 5) [''root''],
         withMiddleware (annotationAt ''Mapping'' ''/api/admin/middleware.go'' 5) [''admin''],
         annotationAt ''MappingFile'' ''/api/admin/users.go'' 3],
      api_Schemas = Map.empty\<rparr>"

text \<open>
  The nodes the second loop of \<open>bindHandleFuncMapping\<close> appends for a file: its
  \<open>Mapping\<close>-scoped annotations, in the order of the input.
\<close>

definition mappingNodes :: "Mapping list \<Rightarrow> string \<Rightarrow> node list" where
  "mappingNodes vs f =
     map NMapping (filter (\<lambda>a. m_Scope a = ''Mapping'' \<and> pos_Filename (m_pos a) = f) vs)"

definition isHandlerNode :: "node \<Rightarrow> bool" where
  "isHandlerNode n = (case n of NHandleFunc k \<Rightarrow> True | NMapping m \<Rightarrow> False)"

text \<open>
  A handler whose file annotation declares \<open>Middleware("auth")\<close> and whose own annotation
  declares \<open>Middleware("auth-")\<close>.
\<close>

definition vetoHandler :: HandleFunc where
  "vetoHandler =
     (handlerAt ''GetTodo'' ''/api/v1/todos/id.go'' 20 [])
       \<lparr>hf_With :=
          Some (withMiddleware (annotationAt ''Mapping'' ''/api/v1/todos/id.go'' 18) [''auth-'']),
        hf_WithGlobal :=
          Some (withMiddleware (annotationAt ''MappingFile'' ''/api/v1/todos/id.go'' 3) [''auth''])\<rparr>"

section \<open>Properties of the include/exclude resolution\<close>

lemma buildSubFrom_count:
  "buildSubFrom i s ss = i + int (count_list ss s) - int (count_list ss (s @ ''-''))"
  by (induction ss arbitrary: i) (auto simp: isX_def)

lemma uniqLoop_set: "set (uniqLoop seen xs) = set xs - seen"
  by (induction xs arbitrary: seen) auto

lemma uniqLoop_distinct: "distinct (uniqLoop seen xs)"
  by (induction xs arbitrary: seen) (auto simp: uniqLoop_set)

lemma remdups_snoc: "remdups (ys @ [x]) = filter (\<lambda>y. y \<noteq> x) (remdups ys) @ [x]"
  by (induction ys) auto

text \<open>
  \<open>lo.Uniq\<close> keeps the first occurrence of every value: it is \<open>remdups\<close>, which keeps
  the last, taken from the other end.
\<close>

lemma uniqLoop_rev_remdups:
  "uniqLoop seen xs = rev (remdups (rev (filter (\<lambda>x. x \<notin> seen) xs)))"
proof (induction xs arbitrary: seen)
  case Nil
  then show ?case by simp
next
  case (Cons x xs)
  show ?case
  proof (cases "x \<in> seen")
    case True
    then show ?thesis using Cons.IH [of seen] by simp
  next
    case False
    have "uniqLoop seen (x # xs) =
            x # rev (remdups (rev (filter (\<lambda>y. y \<notin> insert x seen) xs)))"
      using False Cons.IH [of "insert x seen"] by simp
    also have "\<dots> = rev (remdups (rev (filter (\<lambda>y. y \<notin> seen) (x # xs))))"
      using False
      by (simp add: remdups_snoc rev_filter [symmetric] remdups_filter [symmetric] conj_commute)
    finally show ?thesis .
  qed
qed

lemma Uniq_rev_remdups: "Uniq xs = rev (remdups (rev xs))"
  by (simp add: Uniq_def uniqLoop_rev_remdups)

lemma includeLoop_index:
  "includeLoop xs = map ((!) xs) (filter (keptAt xs) [0..<length xs])"
proof (induction xs)
  case Nil
  then show ?case by simp
next
  case (Cons s rest)
  have up: "[0..<length (s # rest)] = 0 # map Suc [0..<length rest]"
    by (simp add: upt_conv_Cons map_Suc_upt del: upt_Suc)
  have k: "keptAt (s # rest) (Suc i) = keptAt rest i" for i
    by (simp add: keptAt_def)
  have k0: "keptAt (s # rest) 0 = (\<not> isSub s \<and> buildSub s rest > 0)"
    by (simp add: keptAt_def isSub_def buildSub_def buildSubFrom_count)
  show ?case
    unfolding up using Cons.IH
    by (simp add: filter_map comp_def k k0 del: upt_Suc)
qed

lemma includeLoop_append_cong:
  assumes "\<And>s r. \<not> isSub s \<Longrightarrow> buildSub s (r @ zs) = buildSub s (r @ zs')"
    and "includeLoop zs = includeLoop zs'"
  shows "includeLoop (xs @ zs) = includeLoop (xs @ zs')"
  using assms by (induction xs) auto

lemma buildSub_xyx:
  "\<not> isSub s \<Longrightarrow> buildSub s (r @ [''x'', ''y'', ''x-'']) = buildSub s (r @ [''y''])"
  by (auto simp: buildSub_def buildSubFrom_count isSub_def HasSuffix_def)

lemma includeLoop_xyx: "includeLoop [''x'', ''y'', ''x-''] = includeLoop [''y'']"
  by (simp add: isSub_def HasSuffix_def buildSub_def isX_def)

lemma resolve_xyx:
  "resolveIncludeExclude (xs @ [''x'', ''y'', ''x-'']) = resolveIncludeExclude (xs @ [''y''])"
  unfolding resolveIncludeExclude_def
  using includeLoop_append_cong [of "[''x'', ''y'', ''x-'']" "[''y'']" xs]
    buildSub_xyx includeLoop_xyx
  by simp

lemma resolve_aba: "resolveIncludeExclude [''a'', ''b'', ''a''] = [''a'', ''b'']"
  by (simp add: resolveIncludeExclude_def Uniq_def isSub_def HasSuffix_def buildSub_def isX_def)

text \<open>
  Claim C2. For every token list \<open>xs\<close>, \<open>resolveIncludeExclude xs\<close> is the list of the
  tokens at the indices \<open>i\<close> that satisfy \<open>keptAt xs i\<close> (the token does not end in
  \<open>-\<close>, and one plus its later occurrences minus the later occurrences of the token
  with \<open>-\<close> appended is positive), in the order of \<open>xs\<close>, with every value kept at its
  first occurrence only; so the result has exactly the kept tokens and no duplicates.
  Appending \<open>x, y, x-\<close> to any prefix resolves as appending \<open>y\<close> alone, and
  \<open>[a, b, a]\<close> resolves to \<open>[a, b]\<close>.
\<close>

theorem C2_resolveIncludeExclude_rule:
  "resolveIncludeExclude xs =
     rev (remdups (rev (map ((!) xs) (filter (keptAt xs) [0..<length xs]))))
   \<and> set (resolveIncludeExclude xs) = {xs ! i | i. i < length xs \<and> keptAt xs i}
   \<and> distinct (resolveIncludeExclude xs)
   \<and> resolveIncludeExclude (xs @ [''x'', ''y'', ''x-'']) = resolveIncludeExclude (xs @ [''y''])
   \<and> resolveIncludeExclude [''a'', ''b'', ''a''] = [''a'', ''b'']"
proof -
  have a: "resolveIncludeExclude xs =
             rev (remdups (rev (map ((!) xs) (filter (keptAt xs) [0..<length xs]))))"
    by (simp add: resolveIncludeExclude_def Uniq_rev_remdups includeLoop_index)
  have b: "set (resolveIncludeExclude xs) = {xs ! i | i. i < length xs \<and> keptAt xs i}"
    unfolding a by auto
  have c: "distinct (resolveIncludeExclude xs)"
    unfolding a by simp
  show ?thesis using a b c resolve_xyx resolve_aba by blast
qed

section \<open>Properties of the merge\<close>




section \<open>Properties of the binding of annotations\<close>

lemma annotationNodes_dup:
  assumes "(\<exists>v \<in> set vs. fileScoped v \<and> lenAt g (pos_Filename (m_pos v)) > 0)
           \<or> (\<exists>k. secondGlobalAt vs k)"
  shows "\<exists>k < length vs. annotationNodes vs nm g =
            Inl (MultipleGlobalMapping (pos_Filename (m_pos (vs ! k))) (pos_Line (m_pos (vs ! k))))
          \<and> fileScoped (vs ! k)
          \<and> (lenAt g (pos_Filename (m_pos (vs ! k))) > 0 \<or> secondGlobalAt vs k)"
  using assms
proof (induction vs arbitrary: nm g)
  case Nil
  then show ?case by (simp add: secondGlobalAt_def)
next
  case (Cons v vs)
  let ?f = "pos_Filename (m_pos v)"
  show ?case
  proof (cases "m_Scope v = ''Mapping''")
    case True
    have pre: "(\<exists>u \<in> set vs. fileScoped u \<and> lenAt g (pos_Filename (m_pos u)) > 0)
           \<or> (\<exists>k. secondGlobalAt vs k)"
      using Cons.prems True
      apply (auto simp: fileScoped_def secondGlobalAt_def)
      subgoal for k by (cases k) (auto simp: fileScoped_def)
      done
    from Cons.IH [OF pre, of "nm(?f := nm ?f @ [NMapping v])"]
    obtain k where k: "k < length vs"
      "annotationNodes vs (nm(?f := nm ?f @ [NMapping v])) g =
         Inl (MultipleGlobalMapping (pos_Filename (m_pos (vs ! k))) (pos_Line (m_pos (vs ! k))))"
      "fileScoped (vs ! k)"
      "lenAt g (pos_Filename (m_pos (vs ! k))) > 0 \<or> secondGlobalAt vs k"
      by blast
    show ?thesis
      apply (rule exI [of _ "Suc k"])
      using k True by (auto simp: Let_def secondGlobalAt_def fileScoped_def)
  next
    case False
    show ?thesis
    proof (cases "lenAt g ?f > 0")
      case True
      show ?thesis
        apply (rule exI [of _ 0])
        using True False by (simp add: Let_def fileScoped_def)
    next
      case F2: False
      let ?g' = "g(?f \<mapsto> (case g ?f of None \<Rightarrow> [] | Some ms \<Rightarrow> ms) @ [v])"
      have len: "lenAt ?g' f' > 0 \<longleftrightarrow> (f' = ?f \<or> lenAt g f' > 0)" for f'
        by (auto simp: lenAt_def)
      have pre: "(\<exists>u \<in> set vs. fileScoped u \<and> lenAt ?g' (pos_Filename (m_pos u)) > 0)
           \<or> (\<exists>k. secondGlobalAt vs k)"
        using Cons.prems False F2 unfolding len
        apply (auto simp: fileScoped_def secondGlobalAt_def)
        subgoal for k by (cases k) (auto simp: fileScoped_def)
        done
      from Cons.IH [OF pre, of nm]
      obtain k where k: "k < length vs"
        "annotationNodes vs nm ?g' =
           Inl (MultipleGlobalMapping (pos_Filename (m_pos (vs ! k))) (pos_Line (m_pos (vs ! k))))"
        "fileScoped (vs ! k)"
        "lenAt ?g' (pos_Filename (m_pos (vs ! k))) > 0 \<or> secondGlobalAt vs k"
        by blast
      show ?thesis
        apply (rule exI [of _ "Suc k"])
        using k False F2 unfolding len
        by (auto simp: Let_def secondGlobalAt_def fileScoped_def)
    qed
  qed
qed

text \<open>
  Every list the second loop stores in \<open>globalMapping\<close> has an element, so the last
  loop's \<open>m[0]\<close>, the \<open>hd\<close> of the model, reads an annotation.
\<close>

lemma annotationNodes_globals_nonempty:
  assumes "annotationNodes vs nm g = Inr (nm', g')"
    and "\<forall>f ms. g f = Some ms \<longrightarrow> ms \<noteq> []"
  shows "\<forall>f ms. g' f = Some ms \<longrightarrow> ms \<noteq> []"
  using assms
proof (induction vs arbitrary: nm g)
  case Nil
  then show ?case by simp
next
  case (Cons v vs)
  show ?case
  proof (cases "m_Scope v = ''Mapping''")
    case True
    with Cons.prems Cons.IH show ?thesis by (simp add: Let_def)
  next
    case False
    let ?f = "pos_Filename (m_pos v)"
    let ?g = "g(?f \<mapsto> (case g ?f of None \<Rightarrow> [] | Some ms \<Rightarrow> ms) @ [v])"
    from Cons.prems(1) False have "annotationNodes vs nm ?g = Inr (nm', g')"
      by (simp add: Let_def split: if_splits)
    moreover have "\<forall>f ms. ?g f = Some ms \<longrightarrow> ms \<noteq> []"
      using Cons.prems(2) by auto
    ultimately show ?thesis by (rule Cons.IH)
  qed
qed

text \<open>
  Claim C7. When two annotations of the input are file-scoped and lie in the same file,
  binding fails: for some index \<open>k\<close> at which a file-scoped annotation repeats the file of
  an earlier one, \<open>bindHandleFuncMapping\<close> returns the error that names the file and the
  line of the annotation at \<open>k\<close>, whatever the handlers and the order of the files, and
  \<open>BuildRestfulApi\<close> returns that error and no route table.
\<close>

theorem C7_second_file_mapping_fails:
  assumes "i < j" and "j < length anns"
    and "m_Scope (anns ! i) \<noteq> ''Mapping''" and "m_Scope (anns ! j) \<noteq> ''Mapping''"
    and "pos_Filename (m_pos (anns ! i)) = pos_Filename (m_pos (anns ! j))"
  shows "\<exists>k. secondGlobalAt anns k \<and>
           bindHandleFuncMapping ks hs anns =
             Inl (MultipleGlobalMapping (pos_Filename (m_pos (anns ! k)))
                    (pos_Line (m_pos (anns ! k)))) \<and>
           BuildRestfulApi ks prefix
               \<lparr>api_Handlers = hs, api_Annotations = anns, api_Schemas = sch\<rparr> =
             Inl (MultipleGlobalMapping (pos_Filename (m_pos (anns ! k)))
                    (pos_Line (m_pos (anns ! k))))"
proof -
  have "anns ! i \<in> set (take j anns)"
    using assms(1,2)
    by (metis in_set_conv_nth length_take min.absorb2 nth_take less_imp_le_nat)
  then have "secondGlobalAt anns j"
    using assms by (auto simp: secondGlobalAt_def fileScoped_def list_ex_iff)
  then have "(\<exists>v \<in> set anns. fileScoped v \<and> lenAt Map.empty (pos_Filename (m_pos v)) > 0)
           \<or> (\<exists>k. secondGlobalAt anns k)"
    by blast
  from annotationNodes_dup [OF this, of "handlerNodes 0 hs (\<lambda>f. [])"]
  obtain k where k: "k < length anns"
    "annotationNodes anns (handlerNodes 0 hs (\<lambda>f. [])) Map.empty =
       Inl (MultipleGlobalMapping (pos_Filename (m_pos (anns ! k))) (pos_Line (m_pos (anns ! k))))"
    "secondGlobalAt anns k"
    by (auto simp: lenAt_def)
  show ?thesis
    apply (rule exI [of _ k])
    using k by (simp add: bindHandleFuncMapping_def BuildRestfulApi_def)
qed

lemmas fixture_defs = annotationAt_def handlerAt_def argOf_def zeroMapping_def zeroPosition_def
  zeroHandleFunc_def zeroArg_def zeroType_def zeroPackageItem_def

theorem C7_second_file_mapping_fails_witness:
  "(0::nat) < 1 \<and>
   1 < length [annotationAt ''MappingFile'' ''/api/v1/todos.go'' 5,
               annotationAt ''MappingFile'' ''/api/v1/todos.go'' 9] \<and>
   bindHandleFuncMapping [''/api/v1/todos.go'']
      [handlerAt ''ListTodos'' ''/api/v1/todos.go'' 12 []]
      [annotationAt ''MappingFile'' ''/api/v1/todos.go'' 5,
       annotationAt ''MappingFile'' ''/api/v1/todos.go'' 9]
     = Inl (MultipleGlobalMapping ''/api/v1/todos.go'' 9) \<and>
   BuildRestfulApi [''/api/v1/todos.go''] ''/api''
      \<lparr>api_Handlers = [handlerAt ''ListTodos'' ''/api/v1/todos.go'' 12 []],
       api_Annotations = [annotationAt ''MappingFile'' ''/api/v1/todos.go'' 5,
                          annotationAt ''MappingFile'' ''/api/v1/todos.go'' 9],
       api_Schemas = Map.empty\<rparr>
     = Inl (MultipleGlobalMapping ''/api/v1/todos.go'' 9)"
  using C7_second_file_mapping_fails [of 0 1
      "[annotationAt ''MappingFile'' ''/api/v1/todos.go'' 5,
        annotationAt ''MappingFile'' ''/api/v1/todos.go'' 9]"
      "[''/api/v1/todos.go'']" "[handlerAt ''ListTodos'' ''/api/v1/todos.go'' 12 []]"
      "''/api''" Map.empty]
  by (auto simp: secondGlobalAt_def fixture_defs less_Suc_eq)

section \<open>Properties of the route table\<close>

lemma routePath_With [simp]: "routePath prefix (h\<lparr>hf_With := w\<rparr>) = routePath prefix h"
  by (simp add: routePath_def)

lemma addRoute_entry:
  "addRoute prefix apis h =
     apis(routePath prefix h \<mapsto>
       (case apis (routePath prefix h) of None \<Rightarrow> Map.empty | Some i \<Rightarrow> i)
         (routeMethod (withOrDefault h) \<mapsto> routeEntry prefix h))"
  by (simp add: addRoute_def Let_def withOrDefault_def routeEntry_def)

lemma tableAt_addRoute:
  "tableAt (addRoute prefix apis h) p m =
     (if resolvesTo prefix p m h then Some (routeEntry prefix h) else tableAt apis p m)"
  by (auto simp: addRoute_entry tableAt_def resolvesTo_def split: option.splits)

lemma find_snoc:
  "find P (xs @ [x]) =
     (case find P xs of None \<Rightarrow> (if P x then Some x else None) | Some y \<Rightarrow> Some y)"
  by (induction xs) auto

lemma tableAt_foldl_addRoute:
  "tableAt (foldl (addRoute prefix) apis hs) p m =
     (case find (resolvesTo prefix p m) (rev hs) of
        None \<Rightarrow> tableAt apis p m
      | Some h \<Rightarrow> Some (routeEntry prefix h))"
proof (induction hs arbitrary: apis)
  case Nil
  then show ?case by simp
next
  case (Cons h hs)
  show ?case
    by (simp add: Cons.IH find_snoc tableAt_addRoute split: option.splits)
qed

lemma tableAt_empty [simp]: "tableAt Map.empty p m = None"
  by (simp add: tableAt_def)

lemma bind_two_handlers:
  "bindHandleFuncMapping [''/api/v1/todos.go'']
     [handlerAt ''ListTodos'' ''/api/v1/todos.go'' 10 [],
      handlerAt ''CreateTodo'' ''/api/v1/todos.go'' 20 []] [] =
   Inr [handlerAt ''ListTodos'' ''/api/v1/todos.go'' 10 [],
        handlerAt ''CreateTodo'' ''/api/v1/todos.go'' 20 []]"
  by (simp add: bindHandleFuncMapping_def fixture_defs sortFileNodes_def SortFunc_def
      node_Pos_def bindGlobal_def BindMiddlewareFile_def)

lemma todos_resolves:
  "resolvesTo ''/api'' ''/v1/todos'' ''GET'' (handlerAt n ''/api/v1/todos.go'' l [])"
  by (simp add: resolvesTo_def routePath_def getApiPath_def TrimSuffix_def TrimPrefix_def
      HasPrefix_def HasSuffix_def routeMethod_def withOrDefault_def fixture_defs)

text \<open>
  Claim C1, as the code has it. The loop of \<open>BuildRestfulApi\<close> assigns
  \<open>apis[path][method] = h\<close> without looking at what is there. So when binding succeeds
  the build succeeds, and the table's entry at a pattern and a method is the last
  handler, in the order of the handler list, that resolves to the pair: a later handler
  replaces an earlier one of the same pattern and method, and no error is reported.
\<close>

theorem C1_last_handler_wins:
  assumes "bindHandleFuncMapping ks (api_Handlers api) (api_Annotations api) = Inr hs"
  shows "\<not> isl (BuildRestfulApi ks prefix api) \<and>
         routeOf (BuildRestfulApi ks prefix api) p m =
           map_option (routeEntry prefix) (find (resolvesTo prefix p m) (rev hs))"
  using assms
  by (simp add: BuildRestfulApi_def routeOf_def tableAt_foldl_addRoute split: option.splits)

theorem C1_last_handler_wins_witness:
  "bindHandleFuncMapping [''/api/v1/todos.go'']
     (api_Handlers \<lparr>api_Handlers = [handlerAt ''ListTodos'' ''/api/v1/todos.go'' 10 [],
                       handlerAt ''CreateTodo'' ''/api/v1/todos.go'' 20 []],
       api_Annotations = [], api_Schemas = Map.empty\<rparr>)
     (api_Annotations \<lparr>api_Handlers = [handlerAt ''ListTodos'' ''/api/v1/todos.go'' 10 [],
                       handlerAt ''CreateTodo'' ''/api/v1/todos.go'' 20 []],
       api_Annotations = [], api_Schemas = Map.empty\<rparr>) =
     Inr [handlerAt ''ListTodos'' ''/api/v1/todos.go'' 10 [],
          handlerAt ''CreateTodo'' ''/api/v1/todos.go'' 20 []]
   \<and> routeOf (BuildRestfulApi [''/api/v1/todos.go''] ''/api''
        \<lparr>api_Handlers = [handlerAt ''ListTodos'' ''/api/v1/todos.go'' 10 [],
                         handlerAt ''CreateTodo'' ''/api/v1/todos.go'' 20 []],
         api_Annotations = [], api_Schemas = Map.empty\<rparr>) ''/v1/todos'' ''GET'' =
       Some (routeEntry ''/api'' (handlerAt ''CreateTodo'' ''/api/v1/todos.go'' 20 []))"
  using C1_last_handler_wins [of "[''/api/v1/todos.go'']"
      "\<lparr>api_Handlers = [handlerAt ''ListTodos'' ''/api/v1/todos.go'' 10 [],
                       handlerAt ''CreateTodo'' ''/api/v1/todos.go'' 20 []],
        api_Annotations = [], api_Schemas = Map.empty\<rparr>"
      "[handlerAt ''ListTodos'' ''/api/v1/todos.go'' 10 [],
        handlerAt ''CreateTodo'' ''/api/v1/todos.go'' 20 []]"
      "''/api''" "''/v1/todos''" "''GET''"]
  by (simp add: bind_two_handlers todos_resolves)

text \<open>
  The claim as the spec states it fails: two handlers declared in one file, neither with
  an annotation, resolve to the pattern \<open>/v1/todos\<close> and the method \<open>GET\<close>; the build
  returns a table, not an error, and the table holds the second handler.
\<close>

theorem C1_collision_counterexample:
  "\<not> isl (BuildRestfulApi [''/api/v1/todos.go''] ''/api''
      \<lparr>api_Handlers = [handlerAt ''ListTodos'' ''/api/v1/todos.go'' 10 [],
                       handlerAt ''CreateTodo'' ''/api/v1/todos.go'' 20 []],
       api_Annotations = [], api_Schemas = Map.empty\<rparr>)
   \<and> resolvesTo ''/api'' ''/v1/todos'' ''GET'' (handlerAt ''ListTodos'' ''/api/v1/todos.go'' 10 [])
   \<and> resolvesTo ''/api'' ''/v1/todos'' ''GET'' (handlerAt ''CreateTodo'' ''/api/v1/todos.go'' 20 [])
   \<and> map_option hf_Name (routeOf (BuildRestfulApi [''/api/v1/todos.go''] ''/api''
        \<lparr>api_Handlers = [handlerAt ''ListTodos'' ''/api/v1/todos.go'' 10 [],
                         handlerAt ''CreateTodo'' ''/api/v1/todos.go'' 20 []],
         api_Annotations = [], api_Schemas = Map.empty\<rparr>) ''/v1/todos'' ''GET'') =
       Some ''CreateTodo''"
proof -
  have e: "hf_Name (routeEntry ''/api'' (handlerAt ''CreateTodo'' ''/api/v1/todos.go'' 20 [])) =
             ''CreateTodo''"
    by (simp add: routeEntry_def handlerAt_def)
  show ?thesis
    by (simp add: BuildRestfulApi_def bind_two_handlers routeOf_def tableAt_addRoute
        todos_resolves e)
qed

section \<open>Defaults of the method and the status code\<close>

lemma mergeMapping_methodAndCode:
  "methodAndCode (Some (mergeMapping (routeEntry prefix h))) =
     Some (m_HttpMethod (withOrDefault h), m_HttpCode (withOrDefault h))"
  by (simp add: methodAndCode_def mergeMapping_def routeEntry_def Let_def split: option.splits)

lemma bind_labelled_handler:
  "bindHandleFuncMapping [''/api/v1/todos.go'']
     [handlerAt ''ListTodos'' ''/api/v1/todos.go'' 12 []]
     [labelled (annotationAt ''Mapping'' ''/api/v1/todos.go'' 10) ''tag'' ''todo''] =
   Inr [(handlerAt ''ListTodos'' ''/api/v1/todos.go'' 12 [])
          \<lparr>hf_With :=
             Some (labelled (annotationAt ''Mapping'' ''/api/v1/todos.go'' 10) ''tag'' ''todo'')\<rparr>]"
  by (simp add: bindHandleFuncMapping_def Let_def labelled_def fixture_defs sortFileNodes_def
      SortFunc_def node_Pos_def bindGlobal_def BindMiddlewareFile_def filepath_Split_def)

lemma labelled_resolves:
  "resolvesTo ''/api'' ''/v1/todos'' ''GET''
     ((handlerAt ''ListTodos'' ''/api/v1/todos.go'' 12 [])
        \<lparr>hf_With :=
           Some (labelled (annotationAt ''Mapping'' ''/api/v1/todos.go'' 10) ''tag'' ''todo'')\<rparr>)"
  by (simp add: resolvesTo_def routePath_def getApiPath_def TrimSuffix_def TrimPrefix_def
      HasPrefix_def HasSuffix_def routeMethod_def withOrDefault_def labelled_def fixture_defs)

text \<open>
  Claim C8, as the code has it. The loop of \<open>BuildRestfulApi\<close> stores the handler
  under its pattern and the method \<open>routeMethod\<close>, with the mapping \<open>withOrDefault\<close>.
  A handler without a mapping gets the mapping with method GET and status 200. A handler
  with a mapping keeps it as it is: when its method is empty the handler is stored under
  GET, and when its status code is zero the documentation generator reports 200, but the
  fields of the stored mapping stay empty and zero, also after \<open>mergeMapping\<close>.
\<close>

theorem C8_defaults_of_method_and_status:
  "tableAt (addRoute prefix apis h) (routePath prefix h) (routeMethod (withOrDefault h)) =
     Some (routeEntry prefix h)
   \<and> hf_With (routeEntry prefix h) = Some (withOrDefault h)
   \<and> (hf_With h = None \<longrightarrow>
        withOrDefault h = zeroMapping\<lparr>m_HttpMethod := ''GET'', m_HttpCode := 200\<rparr>)
   \<and> (\<forall>w. hf_With h = Some w \<longrightarrow> withOrDefault h = w)
   \<and> (m_HttpMethod (withOrDefault h) = [] \<longrightarrow> routeMethod (withOrDefault h) = ''GET'')
   \<and> (m_HttpCode (withOrDefault h) = 0 \<longrightarrow> swagStatusCode (withOrDefault h) = 200)
   \<and> methodAndCode (Some (mergeMapping (routeEntry prefix h))) =
        Some (m_HttpMethod (withOrDefault h), m_HttpCode (withOrDefault h))"
  by (simp add: tableAt_addRoute resolvesTo_def mergeMapping_methodAndCode)
     (simp add: routeEntry_def withOrDefault_def routeMethod_def swagStatusCode_def)

theorem C8_defaults_of_method_and_status_witness:
  "hf_With ((handlerAt ''ListTodos'' ''/api/v1/todos.go'' 12 [])
      \<lparr>hf_With := Some (labelled (annotationAt ''Mapping'' ''/api/v1/todos.go'' 10) ''tag'' ''todo'')\<rparr>)
     = Some (labelled (annotationAt ''Mapping'' ''/api/v1/todos.go'' 10) ''tag'' ''todo'')
   \<and> hf_With (handlerAt ''ListTodos'' ''/api/v1/todos.go'' 12 []) = None
   \<and> withOrDefault ((handlerAt ''ListTodos'' ''/api/v1/todos.go'' 12 [])
      \<lparr>hf_With := Some (labelled (annotationAt ''Mapping'' ''/api/v1/todos.go'' 10) ''tag'' ''todo'')\<rparr>)
     = labelled (annotationAt ''Mapping'' ''/api/v1/todos.go'' 10) ''tag'' ''todo''
   \<and> m_HttpMethod (labelled (annotationAt ''Mapping'' ''/api/v1/todos.go'' 10) ''tag'' ''todo'') = []
   \<and> m_HttpCode (labelled (annotationAt ''Mapping'' ''/api/v1/todos.go'' 10) ''tag'' ''todo'') = 0
   \<and> routeMethod (labelled (annotationAt ''Mapping'' ''/api/v1/todos.go'' 10) ''tag'' ''todo'') = ''GET''
   \<and> swagStatusCode (labelled (annotationAt ''Mapping'' ''/api/v1/todos.go'' 10) ''tag'' ''todo'') = 200
   \<and> withOrDefault (handlerAt ''ListTodos'' ''/api/v1/todos.go'' 12 []) =
       zeroMapping\<lparr>m_HttpMethod := ''GET'', m_HttpCode := 200\<rparr>"
proof -
  let ?w = "labelled (annotationAt ''Mapping'' ''/api/v1/todos.go'' 10) ''tag'' ''todo''"
  let ?bare = "handlerAt ''ListTodos'' ''/api/v1/todos.go'' 12 []"
  let ?h = "?bare\<lparr>hf_With := Some ?w\<rparr>"
  note own = C8_defaults_of_method_and_status [of "''/api''" Map.empty ?h]
  note none = C8_defaults_of_method_and_status [of "''/api''" Map.empty ?bare]
  have w: "hf_With ?h = Some ?w"
    by simp
  have n: "hf_With ?bare = None"
    by (simp add: handlerAt_def zeroHandleFunc_def)
  have d: "withOrDefault ?h = ?w"
    using own w by blast
  have m: "m_HttpMethod ?w = []" and c: "m_HttpCode ?w = 0"
    by (simp_all add: labelled_def annotationAt_def zeroMapping_def)
  have "routeMethod ?w = ''GET''" and "swagStatusCode ?w = 200"
    using own m c unfolding d by blast+
  moreover have "withOrDefault ?bare = zeroMapping\<lparr>m_HttpMethod := ''GET'', m_HttpCode := 200\<rparr>"
    using none n by blast
  ultimately show ?thesis
    using w n d m c by blast
qed

text \<open>
  The claim as the spec states it fails: a handler whose annotation sets a label only is
  stored, under the method \<open>GET\<close>, with a mapping whose method is empty and whose status
  code is 0, not 200.
\<close>

theorem C8_status_counterexample:
  "methodAndCode (routeOf (BuildRestfulApi [''/api/v1/todos.go''] ''/api''
      \<lparr>api_Handlers = [handlerAt ''ListTodos'' ''/api/v1/todos.go'' 12 []],
       api_Annotations =
         [labelled (annotationAt ''Mapping'' ''/api/v1/todos.go'' 10) ''tag'' ''todo''],
       api_Schemas = Map.empty\<rparr>) ''/v1/todos'' ''GET'') = Some ([], 0)"
proof -
  let ?h = "(handlerAt ''ListTodos'' ''/api/v1/todos.go'' 12 [])
      \<lparr>hf_With :=
         Some (labelled (annotationAt ''Mapping'' ''/api/v1/todos.go'' 10) ''tag'' ''todo'')\<rparr>"
  have m: "methodAndCode (Some (routeEntry ''/api'' ?h)) = Some ([], 0)"
    by (simp add: methodAndCode_def routeEntry_def withOrDefault_def labelled_def fixture_defs)
  show ?thesis
    by (simp add: BuildRestfulApi_def bind_labelled_handler routeOf_def tableAt_addRoute
        labelled_resolves m)
qed

section \<open>Properties of the binding locations\<close>

lemma matchesEntry_EqualTo: "list_ex (\<lambda>item. EqualTo item t) es = matchesEntry es t"
  by (auto simp: matchesEntry_def EqualTo_def list_ex_iff)

lemma bindArg_location:
  assumes "bindArg m hn pn (Some w) cache a = Inr (a', m')"
    and "ty_FullName (arg_Type a) \<notin> set markerTypes"
  shows "arg_Location a' = claimedLocation (m_BindQuery w) (m_BindHeader w) (arg_Type a)"
  using assms
  by (auto simp: bindArg_def Let_def claimedLocation_def matchesEntry_EqualTo
      split: option.splits if_splits sum.splits)

lemma bindArgs_nth:
  assumes "bindArgs m hn pn w cache as = Inr (as', m')"
  shows "length as' = length as \<and>
         (\<forall>i < length as. \<exists>mi mi'. bindArg mi hn pn w cache (as ! i) = Inr (as' ! i, mi'))"
  using assms
proof (induction as arbitrary: m as' m')
  case Nil
  then show ?case by simp
next
  case (Cons a as)
  from Cons.prems obtain a1 m1 as1 where
    s: "bindArg m hn pn w cache a = Inr (a1, m1)"
    and r: "bindArgs m1 hn pn w cache as = Inr (as1, m')"
    and e: "as' = a1 # as1"
    by (auto split: sum.splits)
  from Cons.IH [OF r] have ih: "length as1 = length as"
    "\<forall>i < length as. \<exists>mi mi'. bindArg mi hn pn w cache (as ! i) = Inr (as1 ! i, mi')"
    by blast+
  show ?case
  proof (intro conjI allI impI)
    show "length as' = length (a # as)"
      using e ih by simp
  next
    fix i
    assume "i < length (a # as)"
    then show "\<exists>mi mi'. bindArg mi hn pn w cache ((a # as) ! i) = Inr (as' ! i, mi')"
      using s ih e by (cases i) auto
  qed
qed

lemma autoNameHandleResponse_keeps:
  "autoNameHandleResponse m h = Inr (h1, m1) \<Longrightarrow>
     hf_RequestArgs h1 = hf_RequestArgs h \<and> hf_With h1 = hf_With h"
  by (auto simp: autoNameHandleResponse_def split: sum.splits)

lemma mergeMapping_args: "hf_RequestArgs (mergeMapping h) = hf_RequestArgs h"
  by (simp add: mergeMapping_def Let_def split: option.splits)

lemma mergeMapping_results: "hf_ResponseResult (mergeMapping h) = hf_ResponseResult h"
  by (simp add: mergeMapping_def Let_def split: option.splits)

lemma mergeMapping_fresh_binds:
  "\<not> hf_mappingMerged h \<Longrightarrow>
     \<exists>w. hf_With (mergeMapping h) = Some w \<and> m_BindQuery w = mergedBindQuery h \<and>
         m_BindHeader w = mergedBindHeader h"
  by (simp add: mergeMapping_def Let_def mergedBindQuery_def mergedBindHeader_def zeroMapping_def
      split: option.splits)

text \<open>
  The generator returns (it raises no panic) on a handler that has not been merged
  before and whose results can all be named.
\<close>

lemma generateVarName_returns:
  "varName \<noteq> [] \<or> tpe = ''error'' \<or> tpe = [] \<or> last (Split tpe CHR ''.'') \<noteq> [] \<Longrightarrow>
     \<exists>n m'. generateVarName m f tpe varName = Inr (n, m')"
  by (cases "getAutoIncrementName m f varName"; cases "getAutoIncrementName m f ''_var''";
      cases "last (Split tpe CHR ''.'')")
     (auto simp: generateVarName_def split: list.splits prod.splits
           intro: prod.exhaust)

lemma autoNameLoop_returns:
  "list_all namable as \<Longrightarrow> \<exists>as' m'. autoNameLoop m hn as = Inr (as', m')"
proof (induction as arbitrary: m)
  case Nil
  then show ?case by simp
next
  case (Cons a as)
  show ?case
  proof (cases "arg_Name a \<noteq> []")
    case True
    with Cons.IH [of m] Cons.prems show ?thesis by auto
  next
    case False
    with Cons.prems obtain n m1 where
      g: "generateVarName m hn (ty_Name (arg_Type a)) (arg_Name a) = Inr (n, m1)"
      using generateVarName_returns [of "arg_Name a" "ty_Name (arg_Type a)" m hn]
      by (auto simp: namable_def)
    from Cons.IH [of m1] Cons.prems obtain as' m' where
      "autoNameLoop m1 hn as = Inr (as', m')" by auto
    with g False show ?thesis by simp
  qed
qed

lemma generateVarName_param:
  "generateVarName m f [] (x @ ''Param'') = Inr (getAutoIncrementName m f (x @ ''Param''))"
  by (simp add: generateVarName_def)

lemma bindArg_returns:
  "\<exists>a1 m2. bindArg m hn pn (Some w) cache a = Inr (a1, m2)"
  by (cases "getAutoIncrementName m hn (arg_Name a @ ''Param'')")
     (auto simp: bindArg_def Let_def generateVarName_param split: option.splits)

lemma bindArgs_returns:
  "\<exists>as' m'. bindArgs m hn pn (Some w) cache as = Inr (as', m')"
proof (induction as arbitrary: m)
  case Nil
  then show ?case by simp
next
  case (Cons a as)
  obtain a1 m2 where s: "bindArg m hn pn (Some w) cache a = Inr (a1, m2)"
    using bindArg_returns by blast
  from Cons.IH [of m2] obtain as' m' where
    "bindArgs m2 hn pn (Some w) cache as = Inr (as', m')" by auto
  with s show ?case by simp
qed

lemma generateHandler_returns:
  assumes "\<not> hf_mappingMerged handle" and "list_all namable (hf_ResponseResult handle)"
  shows "\<exists>h' m'. generateHandler m handle imports = Inr (h', m')"
proof -
  from autoNameLoop_returns [OF assms(2), of m "hf_Name (mergeMapping handle)"]
  obtain h1 m1 where a: "autoNameHandleResponse m (mergeMapping handle) = Inr (h1, m1)"
    by (auto simp: autoNameHandleResponse_def mergeMapping_results)
  from mergeMapping_fresh_binds [OF assms(1)] autoNameHandleResponse_keeps [OF a]
  obtain w where w: "hf_With h1 = Some w" by auto
  from bindArgs_returns [of m1 "hf_Name h1" "hf_PackageName h1" w
      "pkgsCacheOf imports Map.empty" "hf_RequestArgs h1"]
  obtain args m2 where
    "bindArgs m1 (hf_Name h1) (hf_PackageName h1) (hf_With h1)
       (pkgsCacheOf imports Map.empty) (hf_RequestArgs h1) = Inr (args, m2)"
    using w by auto
  with a show ?thesis
    by (simp add: generateHandler_def)
qed

lemma getTodoHandler_locations:
  "locationsOf (generateHandler Map.empty getTodoHandler []) =
     Some [[], ''path'', ''header'', ''body'', ''query'']"
  by (simp add: locationsOf_def generateHandler_def getTodoHandler_def typeOf_def
      mergeMapping_def autoNameHandleResponse_def generateVarName_def bindArg_def Let_def
      EqualTo_def IsPrimitive_def markerTypes_def resolveIncludeExclude_def Uniq_def
      fixture_defs)

lemma generateHandler_location:
  assumes "generateHandler m handle imports = Inr (h', m')"
    and "i < length (hf_RequestArgs handle)"
    and "ty_FullName (arg_Type (hf_RequestArgs handle ! i)) \<notin> set markerTypes"
  shows "i < length (hf_RequestArgs h') \<and>
         (\<exists>w. hf_With (mergeMapping handle) = Some w \<and>
              (\<not> hf_mappingMerged handle \<longrightarrow>
                 m_BindQuery w = mergedBindQuery handle \<and>
                 m_BindHeader w = mergedBindHeader handle) \<and>
              arg_Location (hf_RequestArgs h' ! i) =
                claimedLocation (m_BindQuery w) (m_BindHeader w)
                  (arg_Type (hf_RequestArgs handle ! i)))"
proof -
  from assms(1) obtain h1 m1 args where
    a: "autoNameHandleResponse m (mergeMapping handle) = Inr (h1, m1)"
    and b: "bindArgs m1 (hf_Name h1) (hf_PackageName h1) (hf_With h1)
              (pkgsCacheOf imports Map.empty) (hf_RequestArgs h1) = Inr (args, m')"
    and c: "hf_RequestArgs h' = args"
    by (auto simp: generateHandler_def split: sum.splits)
  have k: "hf_RequestArgs h1 = hf_RequestArgs handle"
    "hf_With h1 = hf_With (mergeMapping handle)"
    using autoNameHandleResponse_keeps [OF a] by (simp_all add: mergeMapping_args)
  from bindArgs_nth [OF b] k assms(2) obtain mi mi' where
    len: "length args = length (hf_RequestArgs handle)"
    and st: "bindArg mi (hf_Name h1) (hf_PackageName h1) (hf_With (mergeMapping handle))
               (pkgsCacheOf imports Map.empty) (hf_RequestArgs handle ! i) = Inr (args ! i, mi')"
    by auto
  from st assms(3) obtain w where w: "hf_With (mergeMapping handle) = Some w"
    by (auto simp: bindArg_def Let_def split: option.splits)
  have loc: "arg_Location (args ! i) =
      claimedLocation (m_BindQuery w) (m_BindHeader w) (arg_Type (hf_RequestArgs handle ! i))"
    using bindArg_location [OF st [unfolded w] assms(3)] .
  have fresh: "\<not> hf_mappingMerged handle \<longrightarrow>
      m_BindQuery w = mergedBindQuery handle \<and> m_BindHeader w = mergedBindHeader handle"
    using mergeMapping_fresh_binds [of handle] w by auto
  show ?thesis
    using len assms(2) c w loc fresh by auto
qed

text \<open>
  Claim C3. When \<open>generateHandler\<close> returns, every request argument whose type is not
  one of the three marker types has the location the claim's rule gives, computed from
  the binding lists of the handler's mapping after \<open>mergeMapping\<close>: \<open>query\<close> on a match
  in the query list, otherwise \<open>header\<close> on a match in the header list (whether or not
  the type is primitive), otherwise \<open>path\<close> for a primitive type, otherwise \<open>body\<close>.
  For a handler not merged before, these lists are the file's entries followed by the
  handler's own.
\<close>

theorem C3_binding_location:
  assumes "generateHandler m handle imports = Inr (h', m')"
    and "i < length (hf_RequestArgs handle)"
    and "ty_FullName (arg_Type (hf_RequestArgs handle ! i)) \<notin> set markerTypes"
  shows "i < length (hf_RequestArgs h') \<and>
         (\<exists>w. hf_With (mergeMapping handle) = Some w \<and>
              (\<not> hf_mappingMerged handle \<longrightarrow>
                 m_BindQuery w = mergedBindQuery handle \<and>
                 m_BindHeader w = mergedBindHeader handle) \<and>
              arg_Location (hf_RequestArgs h' ! i) =
                claimedLocation (m_BindQuery w) (m_BindHeader w)
                  (arg_Type (hf_RequestArgs handle ! i)))"
  using assms by (rule generateHandler_location)

theorem C3_binding_location_witness:
  "locationsOf (generateHandler Map.empty getTodoHandler []) =
     Some [[], ''path'', ''header'', ''body'', ''query'']
   \<and> 2 < length (hf_RequestArgs getTodoHandler)
   \<and> ty_FullName (arg_Type (hf_RequestArgs getTodoHandler ! 2)) \<notin> set markerTypes
   \<and> IsPrimitive (arg_Type (hf_RequestArgs getTodoHandler ! 2))
   \<and> \<not> hf_mappingMerged getTodoHandler
   \<and> claimedLocation (mergedBindQuery getTodoHandler) (mergedBindHeader getTodoHandler)
        (arg_Type (hf_RequestArgs getTodoHandler ! 2)) = ''header''"
proof -
  have args: "2 < length (hf_RequestArgs getTodoHandler)"
    and fresh: "\<not> hf_mappingMerged getTodoHandler"
    and mk: "ty_FullName (arg_Type (hf_RequestArgs getTodoHandler ! 2)) \<notin> set markerTypes"
    and prim: "IsPrimitive (arg_Type (hf_RequestArgs getTodoHandler ! 2))"
    by (simp_all add: getTodoHandler_def markerTypes_def IsPrimitive_def fixture_defs)
  from generateHandler_returns [of getTodoHandler Map.empty "[]"] fresh
  obtain h' m' where r: "generateHandler Map.empty getTodoHandler [] = Inr (h', m')"
    by (auto simp: getTodoHandler_def namable_def fixture_defs)
  from C3_binding_location [OF r args mk] fresh
  have "arg_Location (hf_RequestArgs h' ! 2) =
          claimedLocation (mergedBindQuery getTodoHandler) (mergedBindHeader getTodoHandler)
            (arg_Type (hf_RequestArgs getTodoHandler ! 2))"
    by auto
  moreover have "arg_Location (hf_RequestArgs h' ! 2) = ''header''"
    using getTodoHandler_locations r by (auto simp: locationsOf_def)
  ultimately show ?thesis
    using getTodoHandler_locations args mk prim fresh by simp
qed

section \<open>Properties of the route path\<close>











lemmas path_eval = routePath_def pathSegments_def getApiPath_def TrimSuffix_def TrimPrefix_def
  HasPrefix_def HasSuffix_def




section \<open>Properties of the name counter\<close>








section \<open>The middleware sequence of a handler\<close>

lemmas bind_eval = BuildRestfulApi_def bindHandleFuncMapping_def Let_def sortFileNodes_def
  SortFunc_def node_Pos_def bindGlobal_def BindMiddlewareFile_def filepath_Split_def
  lenAt_def routeOf_def mergedRoute_def tableAt_def addRoute_def routeMethod_def
  withMiddleware_def path_eval

lemmas resolve_eval = resolveIncludeExclude_def Uniq_def isSub_def buildSub_def isX_def

text \<open>
  With a file annotation the sequence resolved is the inherited middleware, then the
  file's, then the handler's own. Without one, \<open>mergeMapping\<close> returns before the line
  that resolves, and the handler's \<open>Middlewares\<close> stay as they were.
\<close>

lemma mergeMapping_middleware_input:
  assumes "\<not> hf_mappingMerged h" and "hf_WithGlobal h = Some g"
  shows "hf_Middlewares (mergeMapping h) =
           resolveIncludeExclude (hf_ParentMiddlewares h @ m_Middleware g @
              (case hf_With h of None \<Rightarrow> [] | Some w \<Rightarrow> m_Middleware w))"
  using assms by (simp add: mergeMapping_def Let_def zeroMapping_def split: option.splits)

lemma mergeMapping_without_file_mapping:
  assumes "hf_WithGlobal h = None"
  shows "hf_Middlewares (mergeMapping h) = hf_Middlewares h"
  using assms by (simp add: mergeMapping_def Let_def split: option.splits)

text \<open>
  Claim C6 does not hold of the code. For \<open>GetTodo\<close> in \<open>todos/id.go\<close>, which declares
  \<open>Middleware("log-")\<close> under a directory that declares \<open>Middleware("auth", "log")\<close>,
  the claimed sequence \<open>auth, log, log-\<close> resolves to \<open>auth\<close>. The code resolves
  nothing: the file has no file annotation, so the merged route has the inherited
  middleware \<open>auth, log\<close> and an empty final list. With a file annotation in \<open>id.go\<close>,
  even an empty one, the final list is \<open>auth\<close>. And for a handler in \<open>admin/users.go\<close>
  the inherited middleware is that of \<open>admin/middleware.go\<close> followed by that of
  \<open>middleware.go\<close>, leaf before root, since the files are sorted by their whole names.
\<close>

theorem C6_middleware_sequence_at_inputs:
  "map_option hf_ParentMiddlewares
     (mergedRoute (BuildRestfulApi [''/api/v1/todos/id.go'', ''/api/v1/todos/middleware.go'']
        ''/api'' todosApi) ''/v1/todos/{id}'' ''GET'') = Some [''auth'', ''log'']
   \<and> map_option hf_Middlewares
     (mergedRoute (BuildRestfulApi [''/api/v1/todos/id.go'', ''/api/v1/todos/middleware.go'']
        ''/api'' todosApi) ''/v1/todos/{id}'' ''GET'') = Some []
   \<and> resolveIncludeExclude ([''auth'', ''log''] @ [] @ [''log-'']) = [''auth'']
   \<and> map_option hf_Middlewares
     (mergedRoute (BuildRestfulApi [''/api/v1/todos/id.go'', ''/api/v1/todos/middleware.go'']
        ''/api'' todosApiFileMapping) ''/v1/todos/{id}'' ''GET'') = Some [''auth'']
   \<and> map_option hf_ParentMiddlewares
     (mergedRoute (BuildRestfulApi
        [''/api/admin/users.go'', ''/api/middleware.go'', ''/api/admin/middleware.go'']
        ''/api'' adminApi) ''/admin/users'' ''GET'') = Some [''admin'', ''root'']"
proof -
  have "map_option hf_ParentMiddlewares
     (mergedRoute (BuildRestfulApi [''/api/v1/todos/id.go'', ''/api/v1/todos/middleware.go'']
        ''/api'' todosApi) ''/v1/todos/{id}'' ''GET'') = Some [''auth'', ''log'']"
    by (simp add: todosApi_def bind_eval mergeMapping_def fixture_defs)
  moreover have "map_option hf_Middlewares
     (mergedRoute (BuildRestfulApi [''/api/v1/todos/id.go'', ''/api/v1/todos/middleware.go'']
        ''/api'' todosApi) ''/v1/todos/{id}'' ''GET'') = Some []"
    by (simp add: todosApi_def bind_eval mergeMapping_def fixture_defs)
  moreover have "resolveIncludeExclude ([''auth'', ''log''] @ [] @ [''log-'']) = [''auth'']"
    by (simp add: resolve_eval HasSuffix_def)
  moreover have "map_option hf_Middlewares
     (mergedRoute (BuildRestfulApi [''/api/v1/todos/id.go'', ''/api/v1/todos/middleware.go'']
        ''/api'' todosApiFileMapping) ''/v1/todos/{id}'' ''GET'') = Some [''auth'']"
    by (simp add: todosApiFileMapping_def todosApi_def bind_eval mergeMapping_def fixture_defs
        resolve_eval)
  moreover have "map_option hf_ParentMiddlewares
     (mergedRoute (BuildRestfulApi
        [''/api/admin/users.go'', ''/api/middleware.go'', ''/api/admin/middleware.go'']
        ''/api'' adminApi) ''/admin/users'' ''GET'') = Some [''admin'', ''root'']"
    by (simp add: adminApi_def bind_eval mergeMapping_def fixture_defs resolve_eval)
  ultimately show ?thesis by blast
qed

section \<open>A dangling per-handler annotation\<close>

text \<open>
  The insertion sort puts an element that is greater than all others last, and its result
  is sorted by the key the comparison subtracts.
\<close>

lemma set_insertLeft: "set (insertLeft cmp x acc) = insert x (set acc)"
  by (induction acc) auto

lemma set_foldl_insertLeft:
  "set (foldl (\<lambda>acc x. insertLeft cmp x acc) acc xs) = set acc \<union> set xs"
  by (induction xs arbitrary: acc) (auto simp: set_insertLeft)

lemma foldl_insertLeft_below:
  assumes "\<forall>z \<in> set ys. cmp z x < 0"
  shows "foldl (\<lambda>acc z. insertLeft cmp z acc) (x # acc) ys =
           x # foldl (\<lambda>acc z. insertLeft cmp z acc) acc ys"
  using assms by (induction ys arbitrary: acc) auto

lemma insertLeft_top:
  assumes "\<forall>y \<in> set acc. \<not> cmp x y < 0"
  shows "insertLeft cmp x acc = x # acc"
  using assms by (cases acc) auto

lemma SortFunc_greatest:
  assumes "\<forall>y \<in> set xs. \<not> cmp x y < 0" and "\<forall>z \<in> set ys. cmp z x < 0"
  shows "SortFunc cmp (xs @ x # ys) = SortFunc cmp (xs @ ys) @ [x]"
proof -
  let ?ins = "\<lambda>acc z. insertLeft cmp z acc"
  have "insertLeft cmp x (foldl ?ins [] xs) = x # foldl ?ins [] xs"
    using assms(1) by (intro insertLeft_top) (simp add: set_foldl_insertLeft)
  then have "foldl ?ins [] (xs @ x # ys) = x # foldl ?ins (foldl ?ins [] xs) ys"
    using foldl_insertLeft_below [of ys cmp x "foldl ?ins [] xs"] assms(2) by simp
  then show ?thesis by (simp add: SortFunc_def)
qed

lemma insertLeft_desc:
  assumes "sorted_wrt (\<lambda>a b. key b \<le> key a) acc"
  shows "sorted_wrt (\<lambda>a b. (key b :: int) \<le> key a) (insertLeft (\<lambda>a b. key a - key b) x acc)"
  using assms by (induction acc) (auto simp: set_insertLeft)

lemma foldl_insertLeft_desc:
  assumes "sorted_wrt (\<lambda>a b. key b \<le> key a) acc"
  shows "sorted_wrt (\<lambda>a b. (key b :: int) \<le> key a)
           (foldl (\<lambda>acc z. insertLeft (\<lambda>a b. key a - key b) z acc) acc xs)"
  using assms by (induction xs arbitrary: acc) (auto simp: insertLeft_desc)

lemma SortFunc_sorted:
  "sorted_wrt (\<lambda>a b. (key a :: int) \<le> key b) (SortFunc (\<lambda>a b. key a - key b) xs)"
proof -
  have "sorted_wrt (\<lambda>a b. key b \<le> key a)
           (foldl (\<lambda>acc z. insertLeft (\<lambda>a b. key a - key b) z acc) [] xs)"
    by (rule foldl_insertLeft_desc) simp
  then show ?thesis
    by (simp add: SortFunc_def sorted_wrt_rev)
qed

lemma set_SortFunc: "set (SortFunc cmp xs) = set xs"
  by (simp add: SortFunc_def set_foldl_insertLeft)

lemma SortFunc_last_greatest:
  assumes "xs \<noteq> []" and "y \<in> set xs"
  shows "(key y :: int) \<le> key (last (SortFunc (\<lambda>a b. key a - key b) xs))"
proof -
  let ?s = "SortFunc (\<lambda>a b. key a - key b) xs"
  have ne: "?s \<noteq> []" using assms(1) set_SortFunc [of "\<lambda>a b. key a - key b" xs] by auto
  have y: "y \<in> set ?s" using assms(2) by (simp add: set_SortFunc)
  have "sorted_wrt (\<lambda>a b. key a \<le> key b) (butlast ?s @ [last ?s])"
    using SortFunc_sorted [of key xs] ne by simp
  then have "\<forall>z \<in> set (butlast ?s). key z \<le> key (last ?s)"
    by (simp add: sorted_wrt_append)
  moreover have "y \<in> set (butlast ?s) \<or> y = last ?s"
    using y ne by (metis append_butlast_last_id Un_iff set_append list.set_intros(1) empty_iff empty_set set_ConsD)
  ultimately show ?thesis by auto
qed

text \<open>
  The node map after the first two loops, and what the loop over one file does with a
  last node that is an annotation.
\<close>

lemma handlerNodes_set:
  "set (handlerNodes k vs nm f) =
     set (nm f) \<union> {NHandleFunc (k + i) | i. i < length vs \<and> pos_Filename (hf_Pos (vs ! i)) = f}"
proof (induction vs arbitrary: k nm)
  case Nil
  then show ?case by simp
next
  case (Cons v vs)
  have *: "{NHandleFunc (k + i) | i. i < length (v # vs) \<and> pos_Filename (hf_Pos ((v # vs) ! i)) = f}
      = (if pos_Filename (hf_Pos v) = f then {NHandleFunc k} else {}) \<union>
        {NHandleFunc (Suc k + i) | i. i < length vs \<and> pos_Filename (hf_Pos (vs ! i)) = f}"
    apply (auto simp: less_Suc_eq_0_disj)
    done
  show ?case
    unfolding * by (auto simp: Cons.IH)
qed

lemma annotationNodes_nodes:
  "annotationNodes vs nm g = Inr (nm', g') \<Longrightarrow> nm' = (\<lambda>f. nm f @ mappingNodes vs f)"
proof (induction vs arbitrary: nm g)
  case Nil
  then show ?case by (simp add: mappingNodes_def)
next
  case (Cons v vs)
  show ?case
  proof (cases "m_Scope v = ''Mapping''")
    case True
    with Cons.prems have
      "annotationNodes vs (nm(pos_Filename (m_pos v) := nm (pos_Filename (m_pos v)) @ [NMapping v])) g
         = Inr (nm', g')"
      by (simp add: Let_def)
    from Cons.IH [OF this] True show ?thesis
      by (auto simp: mappingNodes_def fun_eq_iff)
  next
    case False
    with Cons.prems obtain g1 where "annotationNodes vs nm g1 = Inr (nm', g')"
      by (auto simp: Let_def split: if_splits)
    from Cons.IH [OF this] False show ?thesis
      by (auto simp: mappingNodes_def fun_eq_iff)
  qed
qed

lemma annotationNodes_indep:
  "map_sum (\<lambda>e. e) snd (annotationNodes vs nm g) = map_sum (\<lambda>e. e) snd (annotationNodes vs nm2 g)"
  by (induction vs arbitrary: nm nm2 g) (auto simp: Let_def)

lemma annotationNodes_drop:
  assumes "m_Scope m = ''Mapping''"
  shows "map_sum (\<lambda>e. e) snd (annotationNodes (pre @ m # post) nm g) =
         map_sum (\<lambda>e. e) snd (annotationNodes (pre @ post) nm2 g)"
proof (induction pre arbitrary: nm nm2 g)
  case Nil
  show ?case using assms annotationNodes_indep by (simp add: Let_def)
next
  case (Cons v pre)
  show ?case
    using Cons.IH by (simp add: Let_def)
qed

lemma bindFileNodes_pos:
  "bindFileNodes ns hs = Inr hs' \<Longrightarrow> map hf_Pos hs' = map hf_Pos hs"
proof (induction ns hs arbitrary: hs' rule: bindFileNodes.induct)
  case (2 m k rest hs)
  have "map hf_Pos (hs[k := (hs ! k)\<lparr>hf_With := Some m\<rparr>]) = map hf_Pos hs"
    by (cases "k < length hs") (simp_all add: map_update list_update_same_conv list_update_beyond)
  with 2 show ?case by simp
qed auto

lemma bindFileNodes_snoc:
  "ns = [] \<or> isHandlerNode (last ns) \<Longrightarrow>
     bindFileNodes (ns @ [NMapping m]) hs = bindFileNodes ns hs"
proof (induction ns hs rule: bindFileNodes.induct)
  case (1 a b rest hs)
  then show ?case by simp
next
  case (2 a k rest hs)
  then show ?case by simp
next
  case (3 j n rest hs)
  then show ?case by simp
next
  case (4 n hs)
  then show ?case by (cases n) (auto simp: isHandlerNode_def)
next
  case (5 hs)
  then show ?case by simp
qed

lemma sortFileNodes_greatest:
  assumes "\<forall>n \<in> set (A @ B). pos_Line (node_Pos hs n) < pos_Line (m_pos m)"
  shows "sortFileNodes hs (A @ NMapping m # B) = sortFileNodes hs (A @ B) @ [NMapping m]"
proof -
  have a: "\<forall>y \<in> set A. \<not> pos_Line (node_Pos hs (NMapping m)) - pos_Line (node_Pos hs y) < 0"
  proof
    fix y assume "y \<in> set A"
    then have "pos_Line (node_Pos hs y) < pos_Line (m_pos m)" using assms by simp
    then show "\<not> pos_Line (node_Pos hs (NMapping m)) - pos_Line (node_Pos hs y) < 0"
      by (simp add: node_Pos_def)
  qed
  have b: "\<forall>z \<in> set B. pos_Line (node_Pos hs z) - pos_Line (node_Pos hs (NMapping m)) < 0"
  proof
    fix z assume "z \<in> set B"
    then have "pos_Line (node_Pos hs z) < pos_Line (m_pos m)" using assms by simp
    then show "pos_Line (node_Pos hs z) - pos_Line (node_Pos hs (NMapping m)) < 0"
      by (simp add: node_Pos_def)
  qed
  show ?thesis
    unfolding sortFileNodes_def using a b by (rule SortFunc_greatest)
qed

lemma bindFiles_dangling:
  assumes other: "\<And>f'. f' \<noteq> f \<Longrightarrow> nm1 f' = nm2 f'"
    and here: "nm1 f = A @ NMapping m # B" "nm2 f = A @ B"
    and lines: "\<And>hs'. map hf_Pos hs' = P \<Longrightarrow>
                  \<forall>n \<in> set (A @ B). pos_Line (node_Pos hs' n) < pos_Line (m_pos m)"
    and lastH: "\<And>hs'. map hf_Pos hs' = P \<Longrightarrow>
                  A @ B = [] \<or> isHandlerNode (last (sortFileNodes hs' (A @ B)))"
    and pos: "map hf_Pos hs = P"
  shows "bindFiles ks nm1 hs = bindFiles ks nm2 hs"
  using pos
proof (induction ks arbitrary: hs)
  case Nil
  then show ?case by simp
next
  case (Cons k ks)
  have step: "bindFileNodes (sortFileNodes hs (nm1 k)) hs = bindFileNodes (sortFileNodes hs (nm2 k)) hs"
  proof (cases "k = f")
    case True
    have s: "sortFileNodes hs (nm1 f) = sortFileNodes hs (A @ B) @ [NMapping m]"
      unfolding here by (rule sortFileNodes_greatest) (rule lines [OF Cons.prems])
    have "sortFileNodes hs (A @ B) = [] \<or> isHandlerNode (last (sortFileNodes hs (A @ B)))"
      using lastH [OF Cons.prems] by (auto simp: sortFileNodes_def SortFunc_def)
    then show ?thesis
      unfolding True s here(2) by (rule bindFileNodes_snoc)
  next
    case False
    then show ?thesis by (simp add: other)
  qed
  show ?case
  proof (cases "bindFileNodes (sortFileNodes hs (nm2 k)) hs")
    case (Inl e)
    then show ?thesis using step by simp
  next
    case (Inr hs')
    then have "map hf_Pos hs' = P" using bindFileNodes_pos Cons.prems by metis
    from Cons.IH [OF this] Inr step show ?thesis by simp
  qed
qed

lemma mappingNodes_append: "mappingNodes (xs @ ys) f = mappingNodes xs f @ mappingNodes ys f"
  by (simp add: mappingNodes_def)

lemma mappingNodes_Cons:
  "mappingNodes (m # ys) f =
     (if m_Scope m = ''Mapping'' \<and> pos_Filename (m_pos m) = f then [NMapping m] else []) @ mappingNodes ys f"
  by (simp add: mappingNodes_def)

lemma mappingNodes_set:
  "n \<in> set (mappingNodes vs f) \<longleftrightarrow>
     (\<exists>a \<in> set vs. n = NMapping a \<and> m_Scope a = ''Mapping'' \<and> pos_Filename (m_pos a) = f)"
  by (auto simp: mappingNodes_def)

lemma same_pos_nth:
  fixes hs hs' :: "HandleFunc list"
  shows "map hf_Pos hs' = map hf_Pos hs \<Longrightarrow> i < length hs \<Longrightarrow> hf_Pos (hs' ! i) = hf_Pos (hs ! i)"
  by (metis length_map nth_map)

lemma BindMiddlewareFile_drop:
  "snd (filepath_Split (pos_Filename (m_pos m))) \<noteq> ''middleware.go'' \<Longrightarrow>
     BindMiddlewareFile (pre @ m # post) = BindMiddlewareFile (pre @ post)"
  by (simp add: BindMiddlewareFile_def)

lemma bindHandleFuncMapping_dangling:
  assumes scope: "m_Scope m = ''Mapping''"
    and notmw: "snd (filepath_Split (pos_Filename (m_pos m))) \<noteq> ''middleware.go''"
    and hl: "\<forall>h \<in> set hs. pos_Filename (hf_Pos h) = pos_Filename (m_pos m) \<longrightarrow>
               pos_Line (hf_Pos h) < pos_Line (m_pos m)"
    and al: "\<forall>a \<in> set (pre @ post).
               m_Scope a = ''Mapping'' \<and> pos_Filename (m_pos a) = pos_Filename (m_pos m) \<longrightarrow>
               (\<exists>h \<in> set hs. pos_Filename (hf_Pos h) = pos_Filename (m_pos m) \<and>
                              pos_Line (m_pos a) < pos_Line (hf_Pos h))"
  shows "bindHandleFuncMapping ks hs (pre @ m # post) = bindHandleFuncMapping ks hs (pre @ post)"
proof -
  let ?f = "pos_Filename (m_pos m)"
  let ?NM = "handlerNodes 0 hs (\<lambda>f. [])"
  let ?A = "?NM ?f @ mappingNodes pre ?f"
  let ?B = "mappingNodes post ?f"
  let ?nm1 = "\<lambda>f. ?NM f @ mappingNodes (pre @ m # post) f"
  let ?nm2 = "\<lambda>f. ?NM f @ mappingNodes (pre @ post) f"
  have hn: "n \<in> set (?NM ?f) \<longleftrightarrow> (\<exists>i < length hs. n = NHandleFunc i \<and> pos_Filename (hf_Pos (hs ! i)) = ?f)" for n
    by (auto simp: handlerNodes_set)
  have AB: "set (?A @ ?B) = set (?NM ?f) \<union> set (mappingNodes (pre @ post) ?f)"
    by (auto simp: mappingNodes_append)
  have lines: "\<forall>n \<in> set (?A @ ?B). pos_Line (node_Pos hs' n) < pos_Line (m_pos m)"
    if p: "map hf_Pos hs' = map hf_Pos hs" for hs' :: "HandleFunc list"
  proof
    fix n assume "n \<in> set (?A @ ?B)"
    then consider (h) "n \<in> set (?NM ?f)" | (a) "n \<in> set (mappingNodes (pre @ post) ?f)"
      unfolding AB by blast
    then show "pos_Line (node_Pos hs' n) < pos_Line (m_pos m)"
    proof cases
      case h
      then obtain i where i: "i < length hs" "n = NHandleFunc i" "pos_Filename (hf_Pos (hs ! i)) = ?f"
        using hn by blast
      then have "pos_Line (hf_Pos (hs ! i)) < pos_Line (m_pos m)"
        using hl by (metis nth_mem)
      then show ?thesis using i same_pos_nth [OF p i(1)] by (simp add: node_Pos_def)
    next
      case a
      then obtain x where x: "x \<in> set (pre @ post)" "n = NMapping x" "m_Scope x = ''Mapping''"
        "pos_Filename (m_pos x) = ?f"
        using mappingNodes_set by blast
      with al obtain h where "h \<in> set hs" "pos_Filename (hf_Pos h) = ?f"
        "pos_Line (m_pos x) < pos_Line (hf_Pos h)" by blast
      with hl have "pos_Line (m_pos x) < pos_Line (m_pos m)" by fastforce
      then show ?thesis using x by (simp add: node_Pos_def)
    qed
  qed
  have lastH: "?A @ ?B = [] \<or> isHandlerNode (last (sortFileNodes hs' (?A @ ?B)))"
    if p: "map hf_Pos hs' = map hf_Pos hs" for hs' :: "HandleFunc list"
  proof (cases "?A @ ?B = []")
    case True
    then show ?thesis by simp
  next
    case False
    let ?key = "\<lambda>n. pos_Line (node_Pos hs' n)"
    let ?l = "last (sortFileNodes hs' (?A @ ?B))"
    have srt: "sortFileNodes hs' (?A @ ?B) = SortFunc (\<lambda>a b. ?key a - ?key b) (?A @ ?B)"
      by (simp add: sortFileNodes_def)
    have "set (sortFileNodes hs' (?A @ ?B)) = set (?A @ ?B)"
      unfolding srt by (rule set_SortFunc)
    moreover have "sortFileNodes hs' (?A @ ?B) \<noteq> []"
      using False calculation by (metis set_empty)
    ultimately have lin: "?l \<in> set (?A @ ?B)"
      using last_in_set by blast
    show ?thesis
    proof (cases ?l)
      case (NHandleFunc k)
      then show ?thesis by (simp add: isHandlerNode_def)
    next
      case (NMapping x)
      with lin have "NMapping x \<in> set (mappingNodes (pre @ post) ?f)"
        unfolding AB using hn by auto
      then have x: "x \<in> set (pre @ post)" "m_Scope x = ''Mapping''" "pos_Filename (m_pos x) = ?f"
        using mappingNodes_set by auto
      with al obtain h where h: "h \<in> set hs" "pos_Filename (hf_Pos h) = ?f"
        "pos_Line (m_pos x) < pos_Line (hf_Pos h)" by blast
      then obtain i where i: "i < length hs" "hs ! i = h"
        by (meson in_set_conv_nth)
      then have "NHandleFunc i \<in> set (?A @ ?B)"
        unfolding AB using hn h by auto
      from SortFunc_last_greatest [OF False this, of ?key]
      have "?key (NHandleFunc i) \<le> ?key ?l"
        unfolding srt .
      then have "pos_Line (hf_Pos (hs ! i)) \<le> pos_Line (m_pos x)"
        using NMapping same_pos_nth [OF p i(1)] by (simp add: node_Pos_def)
      with h i show ?thesis by simp
    qed
  qed
  have files: "bindFiles ks ?nm1 hs = bindFiles ks ?nm2 hs"
  proof (rule bindFiles_dangling [where f = ?f and A = ?A and B = ?B and m = m and P = "map hf_Pos hs"])
    fix f' assume "f' \<noteq> ?f"
    then show "?nm1 f' = ?nm2 f'"
      by (auto simp: mappingNodes_append mappingNodes_Cons)
  next
    show "?nm1 ?f = ?A @ NMapping m # ?B"
      using scope by (simp add: mappingNodes_append mappingNodes_Cons)
  next
    show "?nm2 ?f = ?A @ ?B"
      by (simp add: mappingNodes_append)
  next
    fix hs' :: "HandleFunc list"
    assume "map hf_Pos hs' = map hf_Pos hs"
    then show "\<forall>n \<in> set (?A @ ?B). pos_Line (node_Pos hs' n) < pos_Line (m_pos m)"
      by (rule lines)
  next
    fix hs' :: "HandleFunc list"
    assume "map hf_Pos hs' = map hf_Pos hs"
    then show "?A @ ?B = [] \<or> isHandlerNode (last (sortFileNodes hs' (?A @ ?B)))"
      by (rule lastH)
  next
    show "map hf_Pos hs = map hf_Pos hs" by simp
  qed
  have drop: "map_sum (\<lambda>e. e) snd (annotationNodes (pre @ m # post) ?NM Map.empty) =
              map_sum (\<lambda>e. e) snd (annotationNodes (pre @ post) ?NM Map.empty)"
    using scope by (rule annotationNodes_drop)
  show ?thesis
  proof (cases "annotationNodes (pre @ post) ?NM Map.empty")
    case (Inl e)
    with drop have "annotationNodes (pre @ m # post) ?NM Map.empty = Inl e"
      by (cases "annotationNodes (pre @ m # post) ?NM Map.empty") auto
    with Inl show ?thesis by (simp add: bindHandleFuncMapping_def)
  next
    case (Inr r)
    obtain n2 g where r: "r = (n2, g)" by (cases r)
    with Inr drop obtain n1 where
      one: "annotationNodes (pre @ m # post) ?NM Map.empty = Inr (n1, g)"
      by (cases "annotationNodes (pre @ m # post) ?NM Map.empty") auto
    have n1: "n1 = ?nm1" using annotationNodes_nodes [OF one] .
    have n2: "n2 = ?nm2" using annotationNodes_nodes [OF Inr [unfolded r]] .
    show ?thesis
      using one Inr r n1 n2 files
      by (simp add: bindHandleFuncMapping_def BindMiddlewareFile_drop [OF notmw]
          split: sum.splits)
  qed
qed

text \<open>
  Claim C10, as the code has it. Let \<open>m\<close> be a \<open>Mapping\<close>-scoped annotation whose file
  is not named \<open>middleware.go\<close>, whose line is greater than the line of every handler of
  its file, and such that every other \<open>Mapping\<close>-scoped annotation of the file lies
  before some handler of the file (so the node before \<open>m\<close>, if there is one, is a
  handler). Then \<open>m\<close> is dropped without a trace: binding and building give the same
  result, handlers or error, as on the input without \<open>m\<close>, for every order of the files.
\<close>

theorem C10_dangling_mapping_dropped:
  assumes "m_Scope m = ''Mapping''"
    and "snd (filepath_Split (pos_Filename (m_pos m))) \<noteq> ''middleware.go''"
    and "\<forall>h \<in> set hs. pos_Filename (hf_Pos h) = pos_Filename (m_pos m) \<longrightarrow>
           pos_Line (hf_Pos h) < pos_Line (m_pos m)"
    and "\<forall>a \<in> set (pre @ post).
           m_Scope a = ''Mapping'' \<and> pos_Filename (m_pos a) = pos_Filename (m_pos m) \<longrightarrow>
           (\<exists>h \<in> set hs. pos_Filename (hf_Pos h) = pos_Filename (m_pos m) \<and>
                          pos_Line (m_pos a) < pos_Line (hf_Pos h))"
  shows "bindHandleFuncMapping ks hs (pre @ m # post) = bindHandleFuncMapping ks hs (pre @ post)
         \<and> BuildRestfulApi ks prefix
             \<lparr>api_Handlers = hs, api_Annotations = pre @ m # post, api_Schemas = sch\<rparr> =
           BuildRestfulApi ks prefix
             \<lparr>api_Handlers = hs, api_Annotations = pre @ post, api_Schemas = sch\<rparr>"
  using bindHandleFuncMapping_dangling [OF assms, of ks]
  by (simp add: BuildRestfulApi_def split: sum.splits)

theorem C10_dangling_mapping_dropped_witness:
  "m_Scope (withMiddleware (annotationAt ''Mapping'' ''/api/v1/todos.go'' 30) [''auth'']) = ''Mapping''
   \<and> bindHandleFuncMapping [''/api/v1/todos.go'']
        [handlerAt ''ListTodos'' ''/api/v1/todos.go'' 12 []]
        ([labelled (annotationAt ''Mapping'' ''/api/v1/todos.go'' 10) ''tag'' ''todo''] @
         withMiddleware (annotationAt ''Mapping'' ''/api/v1/todos.go'' 30) [''auth''] # []) =
      Inr [(handlerAt ''ListTodos'' ''/api/v1/todos.go'' 12 [])
             \<lparr>hf_With :=
                Some (labelled (annotationAt ''Mapping'' ''/api/v1/todos.go'' 10) ''tag'' ''todo'')\<rparr>]"
proof -
  let ?m = "withMiddleware (annotationAt ''Mapping'' ''/api/v1/todos.go'' 30) [''auth'']"
  let ?a = "labelled (annotationAt ''Mapping'' ''/api/v1/todos.go'' 10) ''tag'' ''todo''"
  let ?hs = "[handlerAt ''ListTodos'' ''/api/v1/todos.go'' 12 []]"
  have s: "m_Scope ?m = ''Mapping''"
    and f: "snd (filepath_Split (pos_Filename (m_pos ?m))) \<noteq> ''middleware.go''"
    and hl: "\<forall>h \<in> set ?hs. pos_Filename (hf_Pos h) = pos_Filename (m_pos ?m) \<longrightarrow>
               pos_Line (hf_Pos h) < pos_Line (m_pos ?m)"
    and al: "\<forall>a \<in> set ([?a] @ []).
               m_Scope a = ''Mapping'' \<and> pos_Filename (m_pos a) = pos_Filename (m_pos ?m) \<longrightarrow>
               (\<exists>h \<in> set ?hs. pos_Filename (hf_Pos h) = pos_Filename (m_pos ?m) \<and>
                              pos_Line (m_pos a) < pos_Line (hf_Pos h))"
    by (simp_all add: withMiddleware_def labelled_def filepath_Split_def fixture_defs)
  from C10_dangling_mapping_dropped [OF s f hl al, of "[''/api/v1/todos.go'']" "''/api''" Map.empty]
  have "bindHandleFuncMapping [''/api/v1/todos.go''] ?hs ([?a] @ ?m # []) =
          bindHandleFuncMapping [''/api/v1/todos.go''] ?hs ([?a] @ [])"
    by blast
  then show ?thesis
    using s bind_labelled_handler by simp
qed

text \<open>
  The claim as the spec states it fails in two ways. The annotation
  \<open>Mapping.Middleware("auth", "log")\<close> of \<open>todos/middleware.go\<close> is the only node of its
  file, so it binds to no handler, but it is not without effect: the handler of
  \<open>todos/id.go\<close> inherits \<open>auth, log\<close> from it, and nothing once it is taken away. And
  a last annotation that directly follows another one of its file is not silent: binding
  fails with the error of multiple annotations, at the line of the last one.
\<close>

theorem C10_dangling_counterexample:
  "m_Scope (hd (api_Annotations todosApi)) = ''Mapping''
   \<and> pos_Filename (m_pos (hd (api_Annotations todosApi))) = ''/api/v1/todos/middleware.go''
   \<and> map_option hf_ParentMiddlewares
       (routeOf (BuildRestfulApi [''/api/v1/todos/id.go'', ''/api/v1/todos/middleware.go'']
          ''/api'' todosApi) ''/v1/todos/{id}'' ''GET'') = Some [''auth'', ''log'']
   \<and> map_option hf_ParentMiddlewares
       (routeOf (BuildRestfulApi [''/api/v1/todos/id.go'', ''/api/v1/todos/middleware.go'']
          ''/api'' (todosApi\<lparr>api_Annotations := tl (api_Annotations todosApi)\<rparr>))
          ''/v1/todos/{id}'' ''GET'') = Some []
   \<and> bindHandleFuncMapping [''/api/v1/todos.go''] []
        [annotationAt ''Mapping'' ''/api/v1/todos.go'' 5,
         annotationAt ''Mapping'' ''/api/v1/todos.go'' 9] =
       Inl (MultipleAnnotations ''/api/v1/todos.go'' 9)
   \<and> bindHandleFuncMapping [''/api/v1/todos.go''] []
        [annotationAt ''Mapping'' ''/api/v1/todos.go'' 5] = Inr []"
proof -
  have "m_Scope (hd (api_Annotations todosApi)) = ''Mapping''"
    and "pos_Filename (m_pos (hd (api_Annotations todosApi))) = ''/api/v1/todos/middleware.go''"
    by (simp_all add: todosApi_def withMiddleware_def fixture_defs)
  moreover have "map_option hf_ParentMiddlewares
       (routeOf (BuildRestfulApi [''/api/v1/todos/id.go'', ''/api/v1/todos/middleware.go'']
          ''/api'' todosApi) ''/v1/todos/{id}'' ''GET'') = Some [''auth'', ''log'']"
    by (simp add: todosApi_def bind_eval fixture_defs)
  moreover have "map_option hf_ParentMiddlewares
       (routeOf (BuildRestfulApi [''/api/v1/todos/id.go'', ''/api/v1/todos/middleware.go'']
          ''/api'' (todosApi\<lparr>api_Annotations := tl (api_Annotations todosApi)\<rparr>))
          ''/v1/todos/{id}'' ''GET'') = Some []"
    by (simp add: todosApi_def bind_eval fixture_defs)
  moreover have "bindHandleFuncMapping [''/api/v1/todos.go''] []
        [annotationAt ''Mapping'' ''/api/v1/todos.go'' 5,
         annotationAt ''Mapping'' ''/api/v1/todos.go'' 9] =
       Inl (MultipleAnnotations ''/api/v1/todos.go'' 9)"
    by (simp add: bind_eval fixture_defs)
  moreover have "bindHandleFuncMapping [''/api/v1/todos.go''] []
        [annotationAt ''Mapping'' ''/api/v1/todos.go'' 5] = Inr []"
    by (simp add: bind_eval fixture_defs)
  ultimately show ?thesis by blast
qed

section \<open>The merge flag and copies of a handler\<close>

text \<open>
  The flag belongs to the handler value. The generators call \<open>mergeMapping\<close> on copies of
  the handlers of the route table; such a copy shares the mapping through its pointer,
  not the flag. In the model, a handler that carries the mapping another copy has merged
  and whose flag is not set is merged again: the file's middleware is put in front a
  second time, and the final list differs from that of the first merge.
\<close>

lemma mergeMapping_on_unflagged_copy:
  "hf_Middlewares (mergeMapping vetoHandler) = []
   \<and> hf_Middlewares
       (mergeMapping (vetoHandler\<lparr>hf_With := hf_With (mergeMapping vetoHandler)\<rparr>)) = [''auth'']"
  by (simp add: vetoHandler_def mergeMapping_def Let_def withMiddleware_def fixture_defs
      resolve_eval HasSuffix_def)

end
